theory Spec2Isabelle
  imports Main
begin

section \<open>Resilient browser session manager (puppeteerLauncher.js)\<close>

text \<open>
  \<open>Error msg\<close> is an \<open>Error\<close> object with that message.
\<close>

datatype error = Error string

text \<open>
  A promise may reject with any value, and \<open>fn\<close> is the caller's: what is thrown is an
  object whose \<open>message\<close> property reads a string (an \<open>Error\<close>), \<open>null\<close>, \<open>undefined\<close>, or
  another value, of which only a description is kept: a string, a number, an object
  with no \<open>message\<close>. A call that may throw returns \<open>thrown + 'a\<close>, \<open>Inl\<close> being the throw.
\<close>

datatype thrown =
    Thrown error
  | ThrownNull
  | ThrownUndefined
  | ThrownOther string

text \<open>
  \<open>err.message\<close>: reading a property of \<open>null\<close> or \<open>undefined\<close> throws a \<open>TypeError\<close>;
  \<open>None\<close> is \<open>undefined\<close>.
\<close>

fun message_of :: "thrown \<Rightarrow> error + string option" where
  "message_of (Thrown (Error msg)) = Inr (Some msg)"
| "message_of ThrownNull =
     Inl (Error ''Cannot read properties of null (reading 'message')'')"
| "message_of ThrownUndefined =
     Inl (Error ''Cannot read properties of undefined (reading 'message')'')"
| "message_of (ThrownOther v) = Inr None"

fun nullish :: "thrown \<Rightarrow> bool" where
  "nullish ThrownNull = True"
| "nullish ThrownUndefined = True"
| "nullish (Thrown e) = False"
| "nullish (ThrownOther v) = False"

type_synonym page = nat

text \<open>
  The collaborators of \<open>withPage\<close> are the browser driver and the wrapped operation
  \<open>fn\<close>. One run of \<open>withPage\<close> makes at most one call from each call site per attempt,
  so what the collaborators answer in a run is given by the attempt number of the call:
  \<^item> \<open>launch_out\<close>: how the promise of \<open>puppeteer.launch(...)\<close> settles;
  \<^item> \<open>newPage_out a\<close>: \<open>browser.newPage()\<close> of attempt \<open>a\<close> (line 24);
  \<^item> \<open>setUserAgent_out a\<close>: \<open>page.setUserAgent(...)\<close> of attempt \<open>a\<close> (line 26);
  \<^item> \<open>fn_out p a\<close>: \<open>fn(page, attempt)\<close> (line 30);
  \<^item> \<open>close_try_out a\<close>: \<open>page.close()\<close> inside the \<open>try\<close> block (line 31);
  \<^item> \<open>close_catch_out a\<close>: \<open>page.close()\<close> inside the \<open>catch\<close> block (line 35).
\<close>

record 'r env =
  launch_out :: "thrown + unit"
  newPage_out :: "int \<Rightarrow> thrown + page"
  setUserAgent_out :: "int \<Rightarrow> thrown + unit"
  fn_out :: "page \<Rightarrow> int \<Rightarrow> thrown + 'r"
  close_try_out :: "int \<Rightarrow> thrown + unit"
  close_catch_out :: "int \<Rightarrow> thrown + unit"

text \<open>
  The calls a run makes, in the order it makes them. \<open>Warn a msg\<close> is the
  \<open>console.warn\<close> of attempt \<open>a\<close>, with the message it has read.
\<close>

datatype event =
    Launch
  | NewPage
  | SetUserAgent page
  | CallFn page int
  | Close page
  | Warn int "string option"

text \<open>
  \<open>browserPromise\<close> is the module variable: \<open>None\<close> is \<open>null\<close>, \<open>Some x\<close> the promise
  created by the first call, settled as \<open>x\<close>. \<open>getBrowser\<close> returns the promise and the
  new value of the variable.
\<close>

definition getBrowser ::
  "'r env \<Rightarrow> (thrown + unit) option
     \<Rightarrow> (thrown + unit) \<times> (thrown + unit) option \<times> event list" where
  "getBrowser env browserPromise =
     (case browserPromise of
        None \<Rightarrow> (launch_out env, Some (launch_out env), [Launch])
      | Some b \<Rightarrow> (b, browserPromise, []))"

text \<open>\<open>p.catch(() => {})\<close>: whatever the promise settles to, the result is fulfilled.\<close>

definition swallow :: "thrown + unit \<Rightarrow> unit" where
  "swallow r = (case r of Inl e \<Rightarrow> () | Inr u \<Rightarrow> ())"

text \<open>
  The \<open>try\<close> block of one attempt (lines 26 to 32): its value is the returned result, or
  the exception that reaches the \<open>catch\<close> clause.
\<close>

definition try_block :: "'r env \<Rightarrow> page \<Rightarrow> int \<Rightarrow> (thrown + 'r) \<times> event list" where
  "try_block env page attempt =
     (case setUserAgent_out env attempt of
        Inl err \<Rightarrow> (Inl err, [SetUserAgent page])
      | Inr u \<Rightarrow>
          (case fn_out env page attempt of
             Inl err \<Rightarrow> (Inl err, [SetUserAgent page, CallFn page attempt])
           | Inr result \<Rightarrow>
               (case close_try_out env attempt of
                  Inl err \<Rightarrow> (Inl err, [SetUserAgent page, CallFn page attempt, Close page])
                | Inr u \<Rightarrow> (Inr result, [SetUserAgent page, CallFn page attempt, Close page]))))"

text \<open>
  The \<open>for\<close> loop from a given value of \<open>attempt\<close> on. \<open>Inr None\<close> is the loop running
  out without a \<open>return\<close>: the function then returns \<open>undefined\<close>. \<open>retries\<close> is the value
  of the option, 2 when the caller gives none. The \<open>catch\<close> clause reads \<open>err.message\<close>
  for its warning first (line 34): when that read throws, the \<open>TypeError\<close> leaves
  \<open>withPage\<close> before the page is closed (line 35) and before the test for another
  attempt (line 36).
\<close>

function attempts :: "'r env \<Rightarrow> int \<Rightarrow> int \<Rightarrow> (thrown + 'r option) \<times> event list" where
  "attempts env retries attempt =
     (if attempt \<le> retries + 1 then
        (case newPage_out env attempt of
           Inl err \<Rightarrow> (Inl err, [NewPage])
         | Inr page \<Rightarrow>
             (case try_block env page attempt of
                (Inr result, tr) \<Rightarrow> (Inr (Some result), NewPage # tr)
              | (Inl err, tr) \<Rightarrow>
                  (case message_of err of
                     Inl typeError \<Rightarrow> (Inl (Thrown typeError), NewPage # tr)
                   | Inr msg \<Rightarrow>
                       (let u = swallow (close_catch_out env attempt);
                            tr' = NewPage # tr @ [Warn attempt msg, Close page]
                        in if attempt > retries then (Inl err, tr')
                           else (case attempts env retries (attempt + 1) of
                                   (res, rest) \<Rightarrow> (res, tr' @ rest))))))
      else (Inr None, []))"
  by pat_completeness auto
termination
  by (relation "measure (\<lambda>(env, retries, attempt). nat (retries + 1 - attempt))") auto

declare attempts.simps [simp del]

definition withPage ::
  "'r env \<Rightarrow> int \<Rightarrow> (thrown + unit) option
     \<Rightarrow> (thrown + 'r option) \<times> (thrown + unit) option \<times> event list" where
  "withPage env retries browserPromise =
     (case getBrowser env browserPromise of
        (Inl err, bp, tr) \<Rightarrow> (Inl err, bp, tr)
      | (Inr browser, bp, tr) \<Rightarrow>
          (case attempts env retries 1 of
             (res, tr') \<Rightarrow> (res, bp, tr @ tr')))"

definition calls_newPage :: "event list \<Rightarrow> nat" where
  "calls_newPage tr = length (filter (\<lambda>ev. ev = NewPage) tr)"

definition calls_close :: "event list \<Rightarrow> nat" where
  "calls_close tr = length (filter (\<lambda>ev. case ev of Close p \<Rightarrow> True | _ \<Rightarrow> False) tr)"

definition calls_fn :: "event list \<Rightarrow> nat" where
  "calls_fn tr = length (filter (\<lambda>ev. case ev of CallFn p a \<Rightarrow> True | _ \<Rightarrow> False) tr)"

text \<open>Concrete collaborators, for running the model.\<close>

definition env_flaky :: "string env" where
  "env_flaky =
     \<lparr>launch_out = Inr (),
      newPage_out = (\<lambda>a. Inr (nat a)),
      setUserAgent_out = (\<lambda>a. Inr ()),
      fn_out = (\<lambda>p a. if a \<le> 2 then Inl (Thrown (Error ''Navigation timeout''))
                       else Inr ''jobs''),
      close_try_out = (\<lambda>a. Inr ()),
      close_catch_out = (\<lambda>a. Inl (Thrown (Error ''Protocol error'')))\<rparr>"

definition env_close_throws :: "string env" where
  "env_close_throws =
     \<lparr>launch_out = Inr (),
      newPage_out = (\<lambda>a. Inr (nat a)),
      setUserAgent_out = (\<lambda>a. Inr ()),
      fn_out = (\<lambda>p a. Inr ''jobs''),
      close_try_out = (\<lambda>a. Inl (Thrown (Error ''Protocol error''))),
      close_catch_out = (\<lambda>a. Inl (Thrown (Error ''Protocol error'')))\<rparr>"

definition env_no_page :: "string env" where
  "env_no_page =
     \<lparr>launch_out = Inr (),
      newPage_out = (\<lambda>a. if a = 1 then Inl (Thrown (Error ''Target closed'')) else Inr (nat a)),
      setUserAgent_out = (\<lambda>a. Inr ()),
      fn_out = (\<lambda>p a. Inr ''jobs''),
      close_try_out = (\<lambda>a. Inr ()),
      close_catch_out = (\<lambda>a. Inr ())\<rparr>"

definition env_down :: "string env" where
  "env_down =
     \<lparr>launch_out = Inr (),
      newPage_out = (\<lambda>a. if a = 2 then Inl (Thrown (Error ''Target closed'')) else Inr (nat a)),
      setUserAgent_out = (\<lambda>a. Inr ()),
      fn_out = (\<lambda>p a. Inl (Thrown (Error ''Navigation timeout''))),
      close_try_out = (\<lambda>a. Inr ()),
      close_catch_out = (\<lambda>a. Inr ())\<rparr>"

definition env_null :: "string env" where
  "env_null =
     \<lparr>launch_out = Inr (),
      newPage_out = (\<lambda>a. Inr (nat a)),
      setUserAgent_out = (\<lambda>a. Inr ()),
      fn_out = (\<lambda>p a. if a = 1 then Inl ThrownNull else Inr ''jobs''),
      close_try_out = (\<lambda>a. Inr ()),
      close_catch_out = (\<lambda>a. Inr ())\<rparr>"

section \<open>AI gateway: model fallback (geminiService.js, lines 12 to 122)\<close>

text \<open>
  The collaborators of the service are the generative backend, the discovery endpoint
  and the clock. They answer by the number of the call:
  \<^item> \<open>probe_out n name\<close>: the \<open>n\<close>-th probe (from 0), \<open>generateContent('OK')\<close> on a client
    bound to \<open>name\<close>: after how many milliseconds it settles, and how: an exception, or
    a result, of which \<open>response.text()\<close> throws or gives the text;
  \<^item> \<open>fetch_out\<close>: the request to the discovery endpoint (line 51);
  \<^item> \<open>generate_out n name prompt\<close>: the \<open>n\<close>-th \<open>model.generateContent(prompt)\<close> on the
    client bound to \<open>name\<close>, followed by \<open>response.text()\<close>;
  \<^item> \<open>stream_out n name prompt\<close>: the \<open>n\<close>-th \<open>model.generateContentStream(prompt)\<close>:
    an exception, or the chunks that \<open>result.stream\<close> yields when it is read;
  \<^item> \<open>now_out n\<close>: the \<open>n\<close>-th reading of \<open>Date.now()\<close>, in milliseconds.
\<close>

text \<open>
  An entry of \<open>data.models\<close> in the discovery response; \<open>None\<close> is a missing field.
\<close>

record model_info =
  name :: "string option"
  supportedGenerationMethods :: "string list option"

text \<open>
  What \<open>fetch\<close> and \<open>modelsResponse.json()\<close> give: \<open>fetch\<close> throws; the response is not
  \<open>ok\<close>; \<open>json()\<close> throws; or the decoded body, whose \<open>models\<close> field is an array or is
  missing.
\<close>

datatype models_response =
    FetchThrows error
  | NotOk
  | JsonThrows error
  | Body "model_info list option"

record backend =
  probe_out :: "nat \<Rightarrow> string \<Rightarrow> nat \<times> (error + (error + string))"
  fetch_out :: models_response
  generate_out :: "nat \<Rightarrow> string \<Rightarrow> string \<Rightarrow> error + string"
  stream_out :: "nat \<Rightarrow> string \<Rightarrow> string \<Rightarrow> error + string list"
  now_out :: "nat \<Rightarrow> int"

record cache_entry =
  data :: string
  timestamp :: int

text \<open>
  The fields of the service object, and the calls it has made so far. A client is
  identified by the model identifier it is bound to. \<open>cache\<close> is the JavaScript \<open>Map\<close>:
  its entries in insertion order. \<open>aborted\<close> lists the probes whose
  \<open>controller.abort()\<close> timer has fired.
\<close>

record gemini =
  activeModelName :: "string option"
  model :: "string option"
  cache :: "(string \<times> cache_entry) list"
  initPromise :: bool
  probes :: "string list"
  aborted :: "string list"
  fetches :: nat
  generate_calls :: "(string \<times> string) list"
  stream_calls :: "(string \<times> string) list"
  clock_reads :: nat

text \<open>
  \<open>tryModel\<close> (lines 81 to 115). The timer of line 95 calls \<open>controller.abort()\<close> after
  8000 ms unless \<open>clearTimeout\<close> (line 98) has run before, which it does when
  \<open>generateContent\<close> has settled without an exception by then. \<open>controller.signal\<close> is
  passed to no call. \<open>text && text.length > 0\<close> is true of a non-empty string.
\<close>

definition tryModel :: "backend \<Rightarrow> string \<Rightarrow> gemini \<Rightarrow> bool \<times> gemini" where
  "tryModel env modelName s =
     (let testModel = modelName;
          (latency, probe) = probe_out env (length (probes s)) modelName;
          s1 = s\<lparr>probes := probes s @ [modelName]\<rparr>;
          s2 = (if 8000 \<le> latency \<or> isl probe
                then s1\<lparr>aborted := aborted s1 @ [modelName]\<rparr> else s1)
      in case probe of
           Inl err \<Rightarrow> (False, s2)
         | Inr response \<Rightarrow>
             (case response of
                Inl err \<Rightarrow> (False, s2)
              | Inr text \<Rightarrow>
                  if text \<noteq> [] \<and> length text > 0
                  then (True, s2\<lparr>model := Some testModel, activeModelName := Some modelName\<rparr>)
                  else (False, s2)))"

text \<open>
  The loop \<open>for (const modelName of ...) { if (await this.tryModel(modelName)) return; }\<close>
  (lines 42 to 46 and 64 to 68): \<open>True\<close> when it has left \<open>init\<close> by \<open>return\<close>.
\<close>

fun tryModels :: "backend \<Rightarrow> string list \<Rightarrow> gemini \<Rightarrow> bool \<times> gemini" where
  "tryModels env [] s = (False, s)"
| "tryModels env (modelName # rest) s =
     (case tryModel env modelName s of
        (True, s') \<Rightarrow> (True, s')
      | (False, s') \<Rightarrow> tryModels env rest s')"

definition fastModels :: "string list" where
  "fastModels =
     [''gemini-1.5-flash-8b'', ''gemini-2.0-flash-exp'', ''gemini-1.5-flash'',
      ''gemini-1.5-flash-latest'', ''gemini-1.5-pro'', ''gemini-pro'']"

text \<open>
  \<open>s.replace(pat, rep)\<close> with a string pattern: the first occurrence of \<open>pat\<close> in \<open>s\<close> is
  replaced.
\<close>

fun replace_first :: "string \<Rightarrow> string \<Rightarrow> string \<Rightarrow> string" where
  "replace_first pat rep [] = (if pat = [] then rep else [])"
| "replace_first pat rep (c # cs) =
     (if take (length pat) (c # cs) = pat then rep @ drop (length pat) (c # cs)
      else c # replace_first pat rep cs)"

text \<open>
  \<open>m => m.name.replace('models/', '')\<close> over the filtered entries: reading \<open>replace\<close> of
  a missing name throws a \<open>TypeError\<close>.
\<close>

fun model_names :: "model_info list \<Rightarrow> error + string list" where
  "model_names [] = Inr []"
| "model_names (m # ms) =
     (case name m of
        None \<Rightarrow> Inl (Error ''Cannot read properties of undefined (reading 'replace')'')
      | Some n \<Rightarrow>
          (case model_names ms of
             Inl err \<Rightarrow> Inl err
           | Inr ns \<Rightarrow> Inr (replace_first ''models/'' [] n # ns)))"

text \<open>
  Lines 51 to 60, inside the \<open>try\<close> block: an exception, \<open>None\<close> when the response is
  not \<open>ok\<close>, or \<open>availableModels\<close>.
\<close>

definition availableModels :: "backend \<Rightarrow> error + string list option" where
  "availableModels env =
     (case fetch_out env of
        FetchThrows err \<Rightarrow> Inl err
      | NotOk \<Rightarrow> Inr None
      | JsonThrows err \<Rightarrow> Inl err
      | Body None \<Rightarrow> Inr (Some [])
      | Body (Some ms) \<Rightarrow>
          (case model_names
                  (filter (\<lambda>m. case supportedGenerationMethods m of
                                  None \<Rightarrow> False
                                | Some meths \<Rightarrow> ''generateContent'' \<in> set meths) ms) of
             Inl err \<Rightarrow> Inl err
           | Inr ns \<Rightarrow> Inr (Some ns)))"

text \<open>
  \<open>init\<close> (lines 29 to 79). The \<open>catch\<close> clause of line 70 and the messages of lines 74
  to 78 write to the console only.
\<close>

definition init :: "backend \<Rightarrow> gemini \<Rightarrow> gemini" where
  "init env s =
     (case tryModels env fastModels s of
        (True, s') \<Rightarrow> s'
      | (False, s') \<Rightarrow>
          (let s1 = s'\<lparr>fetches := fetches s' + 1\<rparr>
           in case availableModels env of
                Inl err \<Rightarrow> s1
              | Inr None \<Rightarrow> s1
              | Inr (Some ns) \<Rightarrow> snd (tryModels env ns s1)))"

text \<open>
  The constructor (lines 13 to 27). \<open>init\<close> never throws and awaits no call of the
  service's own, so the promise it returns is fulfilled with the state below; every
  method that reads the model awaits it first (\<open>ensureReady\<close>). \<open>fresh\<close> is the object
  before \<open>init\<close> runs.
\<close>

definition fresh :: gemini where
  "fresh =
     \<lparr>activeModelName = None, model = None, cache = [], initPromise = True,
      probes = [], aborted = [], fetches = 0, generate_calls = [], stream_calls = [],
      clock_reads = 0\<rparr>"

definition constructor :: "backend \<Rightarrow> gemini" where
  "constructor env = init env fresh"

definition ensureReady :: "gemini \<Rightarrow> gemini" where
  "ensureReady s = (if initPromise s then s\<lparr>initPromise := False\<rparr> else s)"

section \<open>AI gateway: response cache and generation (lines 124 to 194)\<close>

definition cacheExpiry :: int where
  "cacheExpiry = 5 * 60 * 1000"

definition Date_now :: "backend \<Rightarrow> gemini \<Rightarrow> int \<times> gemini" where
  "Date_now env s = (now_out env (clock_reads s), s\<lparr>clock_reads := clock_reads s + 1\<rparr>)"

text \<open>
  \<open>Map.prototype.set\<close>: the value of a key already present is replaced where it stands,
  a new key goes to the end. \<open>Map.prototype.delete\<close> removes the key's entry.
\<close>

fun map_set :: "'k \<Rightarrow> 'v \<Rightarrow> ('k \<times> 'v) list \<Rightarrow> ('k \<times> 'v) list" where
  "map_set k v [] = [(k, v)]"
| "map_set k v ((k', v') # m) = (if k' = k then (k, v) # m else (k', v') # map_set k v m)"

definition map_delete :: "'k \<Rightarrow> ('k \<times> 'v) list \<Rightarrow> ('k \<times> 'v) list" where
  "map_delete k m = filter (\<lambda>kv. fst kv \<noteq> k) m"

text \<open>
  \<open>getCached\<close> (lines 125 to 132); \<open>None\<close> is \<open>null\<close>. The clock is read only when the
  key has an entry.
\<close>

definition getCached :: "backend \<Rightarrow> string \<Rightarrow> gemini \<Rightarrow> string option \<times> gemini" where
  "getCached env key s =
     (case map_of (cache s) key of
        None \<Rightarrow> (None, s)
      | Some cached \<Rightarrow>
          (case Date_now env s of
             (now, s1) \<Rightarrow>
               if now - timestamp cached < cacheExpiry then (Some (data cached), s1)
               else (None, s1)))"

text \<open>\<open>setCache\<close> (lines 134 to 142).\<close>

definition setCache :: "backend \<Rightarrow> string \<Rightarrow> string \<Rightarrow> gemini \<Rightarrow> gemini" where
  "setCache env key d s =
     (case Date_now env s of
        (now, s1) \<Rightarrow>
          (let c = map_set key \<lparr>data = d, timestamp = now\<rparr> (cache s1)
           in if length c > 100
              then (case c of
                      [] \<Rightarrow> s1\<lparr>cache := c\<rparr>
                    | (firstKey, e) # rest \<Rightarrow> s1\<lparr>cache := map_delete firstKey c\<rparr>)
              else s1\<lparr>cache := c\<rparr>))"

text \<open>
  \<open>generateRaw\<close> (lines 163 to 183). \<open>if (cached) return cached\<close> takes the branch when
  \<open>cached\<close> is a non-empty string.
\<close>

definition generateRaw :: "backend \<Rightarrow> string \<Rightarrow> gemini \<Rightarrow> (error + string) \<times> gemini" where
  "generateRaw env prompt s0 =
     (let s = ensureReady s0
      in case model s of
           None \<Rightarrow> (Inl (Error ''No active Gemini model initialized''), s)
         | Some m \<Rightarrow>
             (let cacheKey = take 100 prompt
              in case getCached env cacheKey s of
                   (cached, s1) \<Rightarrow>
                     if cached \<noteq> None \<and> cached \<noteq> Some []
                     then (Inr (the cached), s1)
                     else
                       (let s2 = s1\<lparr>generate_calls := generate_calls s1 @ [(m, prompt)]\<rparr>
                        in case generate_out env (length (generate_calls s1)) m prompt of
                             Inl err \<Rightarrow> (Inl err, s2)
                           | Inr text \<Rightarrow> (Inr text, setCache env cacheKey text s2))))"

text \<open>
  \<open>generateStream\<close> (lines 186 to 194). The stream handle is given by the chunks it
  yields.
\<close>

definition generateStream ::
  "backend \<Rightarrow> string \<Rightarrow> gemini \<Rightarrow> (error + string list) \<times> gemini" where
  "generateStream env prompt s0 =
     (let s = ensureReady s0
      in case model s of
           None \<Rightarrow> (Inl (Error ''No active Gemini model initialized''), s)
         | Some m \<Rightarrow>
             (let s1 = s\<lparr>stream_calls := stream_calls s @ [(m, prompt)]\<rparr>
              in case stream_out env (length (stream_calls s)) m prompt of
                   Inl err \<Rightarrow> (Inl err, s1)
                 | Inr chunks \<Rightarrow> (Inr chunks, s1)))"

text \<open>A sequence of calls of the two generation methods, for statements about it.\<close>

datatype call = GenerateRaw string | GenerateStream string

datatype reply = Text string | Stream "string list"

fun run_calls :: "backend \<Rightarrow> call list \<Rightarrow> gemini \<Rightarrow> (error + reply) list \<times> gemini" where
  "run_calls env [] s = ([], s)"
| "run_calls env (GenerateRaw prompt # cs) s =
     (case generateRaw env prompt s of
        (r, s') \<Rightarrow>
          (case run_calls env cs s' of
             (rs, s'') \<Rightarrow> (map_sum id Text r # rs, s'')))"
| "run_calls env (GenerateStream prompt # cs) s =
     (case generateStream env prompt s of
        (r, s') \<Rightarrow>
          (case run_calls env cs s' of
             (rs, s'') \<Rightarrow> (map_sum id Stream r # rs, s'')))"

text \<open>\<open>setCache\<close> for each key and text of a list, in order.\<close>

fun insert_all :: "backend \<Rightarrow> (string \<times> string) list \<Rightarrow> gemini \<Rightarrow> gemini" where
  "insert_all env [] s = s"
| "insert_all env ((key, d) # kds) s = insert_all env kds (setCache env key d s)"

text \<open>
  Statement helpers. A probe succeeds when \<open>tryModel\<close> takes its \<open>return true\<close>: the call
  and \<open>response.text()\<close> do not throw and the text is not empty. The candidates of \<open>init\<close>
  are the hardcoded identifiers followed by the discovered ones, if the discovery gave a
  list. \<open>entries\<close> are the keys and texts of the cache, in the order of the \<open>Map\<close>.
\<close>

definition probe_succeeds :: "nat \<times> (error + (error + string)) \<Rightarrow> bool" where
  "probe_succeeds r = (case snd r of Inr (Inr text) \<Rightarrow> text \<noteq> [] | _ \<Rightarrow> False)"

definition candidates :: "backend \<Rightarrow> string list" where
  "candidates env =
     fastModels @ (case availableModels env of Inr (Some ns) \<Rightarrow> ns | _ \<Rightarrow> [])"

definition entries :: "gemini \<Rightarrow> (string \<times> string) list" where
  "entries s = map (\<lambda>kv. (fst kv, data (snd kv))) (cache s)"

definition not_initialized :: error where
  "not_initialized = Error ''No active Gemini model initialized''"

text \<open>Concrete backends, for running the model.\<close>

definition backend_abc :: backend where
  "backend_abc =
     \<lparr>probe_out = (\<lambda>n name. if name = ''A'' \<or> name = ''gemini-1.5-flash-8b''
                              then (300, Inl (Error ''404 Not Found''))
                              else (120, Inr (Inr ''OK''))),
      fetch_out = NotOk,
      generate_out = (\<lambda>n m prompt. Inr ''Hi there''),
      stream_out = (\<lambda>n m prompt. Inr [''Hi'', '' there'']),
      now_out = (\<lambda>n. 1000 * int n)\<rparr>"

definition backend_dead :: backend where
  "backend_dead =
     \<lparr>probe_out = (\<lambda>n name. (300, Inl (Error ''API key not valid''))),
      fetch_out = Body (Some
        [\<lparr>name = Some ''models/gemini-x'', supportedGenerationMethods = Some [''generateContent'']\<rparr>,
         \<lparr>name = Some ''models/embedding-001'', supportedGenerationMethods = Some [''embedContent'']\<rparr>]),
      generate_out = (\<lambda>n m prompt. Inr ''Hi there''),
      stream_out = (\<lambda>n m prompt. Inr [''Hi'', '' there'']),
      now_out = (\<lambda>n. 1000 * int n)\<rparr>"

definition backend_slow :: backend where
  "backend_slow =
     \<lparr>probe_out = (\<lambda>n name. (9000, Inr (Inr ''OK''))),
      fetch_out = NotOk,
      generate_out = (\<lambda>n m prompt. Inr ''Hi there''),
      stream_out = (\<lambda>n m prompt. Inr [''Hi'', '' there'']),
      now_out = (\<lambda>n. 1000 * int n)\<rparr>"

definition backend_blank :: backend where
  "backend_blank =
     \<lparr>probe_out = (\<lambda>n name. (120, Inr (Inr ''OK''))),
      fetch_out = NotOk,
      generate_out = (\<lambda>n m prompt. Inr []),
      stream_out = (\<lambda>n m prompt. Inr []),
      now_out = (\<lambda>n. 1000 * int n)\<rparr>"

text \<open>101 cache keys, all different, each with the same text.\<close>

definition keys101 :: "(string \<times> string) list" where
  "keys101 = map (\<lambda>n. (''prompt '' @ replicate n CHR ''x'', ''text'')) [0..<101]"

section \<open>Job recommendations (geminiService.js, lines 209 to 219 and 250 to 287)\<close>

text \<open>
  JavaScript values that are plain data: what a request body, a database document
  turned to JSON or \<open>JSON.parse\<close> gives. Objects have string keys, looked up from the
  front. Numbers are floating point and stay opaque: \<open>'n\<close> is their type. What the code
  needs of the language is a parameter:
  \<^item> \<open>JSON_parse\<close>: \<open>JSON.parse\<close>, \<open>None\<close> when it throws a \<open>SyntaxError\<close>;
  \<^item> \<open>Number_truthy\<close>: a number is truthy when it is neither zero nor \<open>NaN\<close>;
  \<^item> \<open>Number_toString\<close>: the decimal form of a number.
\<close>

datatype 'n jsval =
    JUndefined
  | JNull
  | JBool bool
  | JNum 'n
  | JStr string
  | JArr "'n jsval list"
  | JObj "(string \<times> 'n jsval) list"

record 'n js =
  JSON_parse :: "string \<Rightarrow> 'n jsval option"
  Number_truthy :: "'n \<Rightarrow> bool"
  Number_toString :: "'n \<Rightarrow> string"

fun js_truthy :: "'n js \<Rightarrow> 'n jsval \<Rightarrow> bool" where
  "js_truthy js JUndefined = False"
| "js_truthy js JNull = False"
| "js_truthy js (JBool b) = b"
| "js_truthy js (JNum n) = Number_truthy js n"
| "js_truthy js (JStr s) = (s \<noteq> [])"
| "js_truthy js (JArr xs) = True"
| "js_truthy js (JObj kvs) = True"

text \<open>\<open>a || b\<close>.\<close>

definition js_or :: "'n js \<Rightarrow> 'n jsval \<Rightarrow> 'n jsval \<Rightarrow> 'n jsval" where
  "js_or js a b = (if js_truthy js a then a else b)"

text \<open>
  \<open>v.k\<close>, for a property \<open>k\<close> that no prototype defines, which is so of every property the
  code reads (\<open>title\<close>, \<open>company\<close>, \<open>location\<close>, \<open>skills\<close>, \<open>id\<close>, \<open>_id\<close>, \<open>education\<close>, \<open>degree\<close>,
  \<open>totalExperience\<close>, \<open>jobId\<close>, \<open>matchScore\<close>): a \<open>TypeError\<close> on \<open>undefined\<close> and \<open>null\<close>,
  the value of the key on an object, \<open>undefined\<close> elsewhere.
\<close>

fun js_get :: "'n jsval \<Rightarrow> string \<Rightarrow> error + 'n jsval" where
  "js_get JUndefined k = Inl (Error (''Cannot read properties of undefined (reading '' @ k @ '')''))"
| "js_get JNull k = Inl (Error (''Cannot read properties of null (reading '' @ k @ '')''))"
| "js_get (JObj kvs) k = Inr (case map_of kvs k of None \<Rightarrow> JUndefined | Some v \<Rightarrow> v)"
| "js_get v k = Inr JUndefined"

text \<open>
  \<open>v.slice(0, n)\<close>: arrays and strings have the method; on \<open>undefined\<close> and \<open>null\<close> reading
  it throws, on any other plain value calling it does.
\<close>

fun js_slice :: "'n jsval \<Rightarrow> nat \<Rightarrow> error + 'n jsval" where
  "js_slice (JArr xs) n = Inr (JArr (take n xs))"
| "js_slice (JStr s) n = Inr (JStr (take n s))"
| "js_slice JUndefined n = Inl (Error ''Cannot read properties of undefined (reading slice)'')"
| "js_slice JNull n = Inl (Error ''Cannot read properties of null (reading slice)'')"
| "js_slice v n = Inl (Error ''slice is not a function'')"

text \<open>
  The conversion to a string of a template literal, and \<open>Array.prototype.join\<close>, where
  \<open>undefined\<close> and \<open>null\<close> elements give the empty string. A plain object gives
  \<open>[object Object]\<close>, unless it has a key \<open>toString\<close>: its value is not a function, and the
  conversion throws.
\<close>

fun js_toString :: "'n js \<Rightarrow> 'n jsval \<Rightarrow> error + string"
  and js_join :: "'n js \<Rightarrow> string \<Rightarrow> 'n jsval list \<Rightarrow> error + string" where
  "js_toString js JUndefined = Inr ''undefined''"
| "js_toString js JNull = Inr ''null''"
| "js_toString js (JBool b) = Inr (if b then ''true'' else ''false'')"
| "js_toString js (JNum n) = Inr (Number_toString js n)"
| "js_toString js (JStr s) = Inr s"
| "js_toString js (JArr xs) = js_join js '','' xs"
| "js_toString js (JObj kvs) =
     (if ''toString'' \<in> fst ` set kvs
      then Inl (Error ''Cannot convert object to primitive value'')
      else Inr ''[object Object]'')"
| "js_join js sep [] = Inr []"
| "js_join js sep (x # xs) =
     (case (case x of JUndefined \<Rightarrow> Inr [] | JNull \<Rightarrow> Inr [] | _ \<Rightarrow> js_toString js x) of
        Inl err \<Rightarrow> Inl err
      | Inr a \<Rightarrow>
          if xs = [] then Inr a
          else (case js_join js sep xs of
                  Inl err \<Rightarrow> Inl err
                | Inr b \<Rightarrow> Inr (a @ sep @ b)))"

text \<open>\<open>v.join(sep)\<close>: only arrays have the method.\<close>

definition js_join_method :: "'n js \<Rightarrow> 'n jsval \<Rightarrow> string \<Rightarrow> error + string" where
  "js_join_method js v sep =
     (case v of
        JArr xs \<Rightarrow> js_join js sep xs
      | JUndefined \<Rightarrow> Inl (Error ''Cannot read properties of undefined (reading join)'')
      | JNull \<Rightarrow> Inl (Error ''Cannot read properties of null (reading join)'')
      | _ \<Rightarrow> Inl (Error ''join is not a function''))"

text \<open>\<open>v.map(f)\<close> for a callback \<open>f\<close> that may throw: only arrays have the method.\<close>

fun map_throwing :: "('a \<Rightarrow> error + 'b) \<Rightarrow> 'a list \<Rightarrow> error + 'b list" where
  "map_throwing f [] = Inr []"
| "map_throwing f (x # xs) =
     (case f x of
        Inl err \<Rightarrow> Inl err
      | Inr y \<Rightarrow> (case map_throwing f xs of Inl err \<Rightarrow> Inl err | Inr ys \<Rightarrow> Inr (y # ys)))"

definition js_map ::
  "'n jsval \<Rightarrow> (nat \<Rightarrow> 'n jsval \<Rightarrow> error + 'b) \<Rightarrow> error + 'b list" where
  "js_map v f =
     (case v of
        JArr xs \<Rightarrow> map_throwing (\<lambda>ix. f (fst ix) (snd ix)) (zip [0..<length xs] xs)
      | JUndefined \<Rightarrow> Inl (Error ''Cannot read properties of undefined (reading map)'')
      | JNull \<Rightarrow> Inl (Error ''Cannot read properties of null (reading map)'')
      | _ \<Rightarrow> Inl (Error ''map is not a function''))"

text \<open>Sequencing of steps that may throw.\<close>

definition seq :: "error + 'a \<Rightarrow> ('a \<Rightarrow> error + 'b) \<Rightarrow> error + 'b" where
  "seq m f = (case m of Inl err \<Rightarrow> Inl err | Inr x \<Rightarrow> f x)"

text \<open>The decimal form of an array index.\<close>

fun string_of_nat :: "nat \<Rightarrow> string" where
  "string_of_nat n =
     (if n < 10 then [''0123456789'' ! n]
      else string_of_nat (n div 10) @ [''0123456789'' ! (n mod 10)])"

declare string_of_nat.simps [simp del]

definition nl :: string where
  "nl = [CHR 0x0A]"

text \<open>\<open>lines.join(sep)\<close> for an array of strings.\<close>

fun join_strings :: "string \<Rightarrow> string list \<Rightarrow> string" where
  "join_strings sep [] = []"
| "join_strings sep [x] = x"
| "join_strings sep (x # y # ys) = x @ sep @ join_strings sep (y # ys)"

text \<open>The callback of line 256: one line for job \<open>i\<close>.\<close>

definition format_job :: "'n js \<Rightarrow> nat \<Rightarrow> 'n jsval \<Rightarrow> error + string" where
  "format_job js i job =
     seq (js_get job ''title'') (\<lambda>title. seq (js_toString js title) (\<lambda>title.
     seq (js_get job ''company'') (\<lambda>company. seq (js_toString js company) (\<lambda>company.
     seq (js_get job ''location'') (\<lambda>location. seq (js_toString js location) (\<lambda>location.
     seq (js_get job ''skills'') (\<lambda>skills.
     seq (js_slice (js_or js skills (JArr [])) 3) (\<lambda>skills.
     seq (js_join_method js skills '','') (\<lambda>skills.
     seq (js_get job ''id'') (\<lambda>ident.
     seq (if js_truthy js ident then Inr ident else js_get job ''_id'') (\<lambda>ident.
     seq (js_toString js ident) (\<lambda>ident.
       Inr (string_of_nat (i + 1) @ ''|'' @ title @ ''|'' @ company @ ''|'' @ location @ ''|''
            @ skills @ ''|'' @ ident)))))))))))))"

text \<open>Lines 253 to 274: the prompt, or the exception that building it throws.\<close>

definition recommendation_prompt :: "'n js \<Rightarrow> 'n jsval \<Rightarrow> 'n jsval \<Rightarrow> error + string" where
  "recommendation_prompt js resumeData availableJobs =
     seq (js_slice (js_or js availableJobs (JArr [])) 15) (\<lambda>topJobs.
     seq (js_map topJobs (format_job js)) (\<lambda>lines.
     let formattedJobs = join_strings nl lines in
     seq (js_get resumeData ''skills'') (\<lambda>skills.
     seq (js_slice (js_or js skills (JArr [])) 5) (\<lambda>skills.
     seq (js_join_method js skills '', '') (\<lambda>skills.
     seq (js_get resumeData ''education'') (\<lambda>education.
     seq (js_map (js_or js education (JArr [])) (\<lambda>i e. js_get e ''degree'')) (\<lambda>degrees.
     seq (js_join js '', '' (take 2 degrees)) (\<lambda>edu.
     seq (js_get resumeData ''totalExperience'') (\<lambda>totalExperience.
     seq (if js_truthy js totalExperience then js_toString js totalExperience else Inr ''0'')
       (\<lambda>experience.
       Inr (''Match candidate to jobs. Output JSON array only.'' @ nl @ nl
            @ ''Candidate: '' @ skills @ '' | '' @ experience @ ''y | ''
            @ (if edu \<noteq> [] then edu else ''N/A'') @ nl @ nl
            @ ''Jobs (ID|Title|Company|Location|Skills|JobID):'' @ nl
            @ formattedJobs @ nl @ nl
            @ ''JSON format:'' @ nl
            @ ''[{\"jobId\":\"exact_id\",\"matchScore\":0.85,\"reasons\":[\"reason1\",\"reason2\"]}]''
            @ nl @ nl
            @ ''Rules: score 0-1, limit 5, min score 0.6'')))))))))))"

text \<open>
  \<open>text.match(/\[[\s\S]*\]/)\<close>: the match starts at the first \<open>[\<close> and, the star being
  greedy, ends at the last \<open>]\<close> after it; there is none when no \<open>]\<close> follows the first
  \<open>[\<close>.
\<close>

definition match_brackets :: "string \<Rightarrow> string option" where
  "match_brackets text =
     (let from_open = dropWhile (\<lambda>c. c \<noteq> CHR ''['') text
      in if from_open = [] then None
         else if CHR '']'' \<in> set (tl from_open)
              then Some (rev (dropWhile (\<lambda>c. c \<noteq> CHR '']'') (rev from_open)))
              else None)"

text \<open>\<open>extractFirstJSONArray\<close> (lines 209 to 219); \<open>JNull\<close> is its \<open>null\<close>.\<close>

definition extractFirstJSONArray :: "'n js \<Rightarrow> string \<Rightarrow> 'n jsval" where
  "extractFirstJSONArray js text =
     (case match_brackets text of
        Some m \<Rightarrow> (case JSON_parse js m of Some v \<Rightarrow> v | None \<Rightarrow> JNull)
      | None \<Rightarrow> JNull)"

text \<open>The filter of line 281: \<open>r && r.jobId && typeof r.matchScore === 'number'\<close>.\<close>

definition is_recommendation :: "'n js \<Rightarrow> 'n jsval \<Rightarrow> bool" where
  "is_recommendation js r =
     (js_truthy js r
      \<and> (case js_get r ''jobId'' of Inl err \<Rightarrow> False | Inr v \<Rightarrow> js_truthy js v)
      \<and> (case js_get r ''matchScore'' of Inr (JNum n) \<Rightarrow> True | _ \<Rightarrow> False))"

text \<open>The \<open>try\<close> block of \<open>getJobRecommendations\<close> (lines 252 to 282).\<close>

definition recommendations_try ::
  "'n js \<Rightarrow> backend \<Rightarrow> 'n jsval \<Rightarrow> 'n jsval \<Rightarrow> gemini \<Rightarrow> (error + 'n jsval list) \<times> gemini" where
  "recommendations_try js env resumeData availableJobs s =
     (case recommendation_prompt js resumeData availableJobs of
        Inl err \<Rightarrow> (Inl err, s)
      | Inr prompt \<Rightarrow>
          (case generateRaw env prompt s of
             (Inl err, s') \<Rightarrow> (Inl err, s')
           | (Inr text, s') \<Rightarrow>
               (case extractFirstJSONArray js text of
                  JArr arr \<Rightarrow> (Inr (take 5 (filter (is_recommendation js) arr)), s')
                | _ \<Rightarrow> (Inr [], s'))))"

text \<open>
  \<open>getJobRecommendations\<close> (lines 250 to 287): the \<open>catch\<close> clause writes the message to
  the console and returns the empty array.
\<close>

definition getJobRecommendations ::
  "'n js \<Rightarrow> backend \<Rightarrow> 'n jsval \<Rightarrow> 'n jsval \<Rightarrow> gemini \<Rightarrow> (error + 'n jsval list) \<times> gemini" where
  "getJobRecommendations js env resumeData availableJobs s =
     (case recommendations_try js env resumeData availableJobs s of
        (Inl err, s') \<Rightarrow> (Inr [], s')
      | (Inr recommendations, s') \<Rightarrow> (Inr recommendations, s'))"

text \<open>
  A concrete instance, for running the model: integers for numbers, a \<open>JSON.parse\<close> that
  knows one text, a backend that wraps this text in prose, and a candidate with two jobs.
\<close>

definition reply_json :: string where
  "reply_json =
     ''[{\"jobId\":\"j1\",\"matchScore\":1},{\"jobId\":\"j2\",\"matchScore\":2},{\"jobId\":\"j3\",\"matchScore\":3},{\"jobId\":\"j4\",\"matchScore\":4},{\"jobId\":\"j5\",\"matchScore\":5},{\"jobId\":\"j6\",\"matchScore\":6},{\"jobId\":\"j7\"},null]''"

definition js_stub :: "int js" where
  "js_stub =
     \<lparr>JSON_parse = (\<lambda>t. if t = reply_json
        then Some (JArr
             [JObj [(''jobId'', JStr ''j1''), (''matchScore'', JNum 1)],
              JObj [(''jobId'', JStr ''j2''), (''matchScore'', JNum 2)],
              JObj [(''jobId'', JStr ''j3''), (''matchScore'', JNum 3)],
              JObj [(''jobId'', JStr ''j4''), (''matchScore'', JNum 4)],
              JObj [(''jobId'', JStr ''j5''), (''matchScore'', JNum 5)],
              JObj [(''jobId'', JStr ''j6''), (''matchScore'', JNum 6)],
              JObj [(''jobId'', JStr ''j7'')],
              JNull])
        else None),
      Number_truthy = (\<lambda>n. n \<noteq> 0),
      Number_toString = (\<lambda>n. if n < 0 then ''-'' @ string_of_nat (nat (- n))
                               else string_of_nat (nat n))\<rparr>"

definition backend_matches :: backend where
  "backend_matches =
     \<lparr>probe_out = (\<lambda>n name. (120, Inr (Inr ''OK''))),
      fetch_out = NotOk,
      generate_out = (\<lambda>n m prompt. Inr (''Here are the matches: '' @ reply_json @ '' Good luck!'')),
      stream_out = (\<lambda>n m prompt. Inr []),
      now_out = (\<lambda>n. 1000 * int n)\<rparr>"

definition resume_example :: "int jsval" where
  "resume_example =
     JObj [(''skills'', JArr [JStr ''React'', JStr ''Node'']),
           (''education'', JArr [JObj [(''degree'', JStr ''BSc'')]]),
           (''totalExperience'', JNum 3)]"

definition jobs_example :: "int jsval" where
  "jobs_example =
     JArr [JObj [(''title'', JStr ''Developer''), (''company'', JStr ''Acme''),
                 (''location'', JStr ''Pune''), (''skills'', JArr [JStr ''React'']),
                 (''id'', JStr ''j1'')],
           JObj [(''title'', JStr ''Analyst''), (''company'', JStr ''Initech''),
                 (''location'', JNull), (''_id'', JStr ''j2'')]]"

section \<open>Properties of the browser session manager\<close>

lemma calls_fn_simps [simp]:
  "calls_fn [] = 0"
  "calls_fn (NewPage # tr) = calls_fn tr"
  "calls_fn (Launch # tr) = calls_fn tr"
  "calls_fn (SetUserAgent p # tr) = calls_fn tr"
  "calls_fn (CallFn p a # tr) = Suc (calls_fn tr)"
  "calls_fn (Close p # tr) = calls_fn tr"
  "calls_fn (Warn a e # tr) = calls_fn tr"
  "calls_fn (tr @ tr') = calls_fn tr + calls_fn tr'"
  by (simp_all add: calls_fn_def)

lemma calls_newPage_simps [simp]:
  "calls_newPage [] = 0"
  "calls_newPage (NewPage # tr) = Suc (calls_newPage tr)"
  "calls_newPage (Launch # tr) = calls_newPage tr"
  "calls_newPage (SetUserAgent p # tr) = calls_newPage tr"
  "calls_newPage (CallFn p a # tr) = calls_newPage tr"
  "calls_newPage (Close p # tr) = calls_newPage tr"
  "calls_newPage (Warn a e # tr) = calls_newPage tr"
  "calls_newPage (tr @ tr') = calls_newPage tr + calls_newPage tr'"
  by (simp_all add: calls_newPage_def)

lemma calls_close_simps [simp]:
  "calls_close [] = 0"
  "calls_close (NewPage # tr) = calls_close tr"
  "calls_close (Launch # tr) = calls_close tr"
  "calls_close (SetUserAgent p # tr) = calls_close tr"
  "calls_close (CallFn p a # tr) = calls_close tr"
  "calls_close (Close p # tr) = Suc (calls_close tr)"
  "calls_close (Warn a e # tr) = calls_close tr"
  "calls_close (tr @ tr') = calls_close tr + calls_close tr'"
  by (simp_all add: calls_close_def)

lemma message_readable: "\<not> nullish err \<Longrightarrow> \<exists>msg. message_of err = Inr msg"
proof (cases err)
  case (Thrown e)
  then show ?thesis by (cases e) simp
qed simp_all

lemma message_unreadable: "nullish err \<Longrightarrow> \<exists>typeError. message_of err = Inl typeError"
  by (cases err) simp_all

subsection \<open>One turn of the loop\<close>

lemma attempts_done: "retries + 1 < attempt \<Longrightarrow> attempts env retries attempt = (Inr None, [])"
  by (subst attempts.simps) simp

lemma attempts_newPage_throws:
  "attempt \<le> retries + 1 \<Longrightarrow> newPage_out env attempt = Inl err
    \<Longrightarrow> attempts env retries attempt = (Inl err, [NewPage])"
  by (subst attempts.simps) simp

lemma attempts_return:
  "attempt \<le> retries + 1 \<Longrightarrow> newPage_out env attempt = Inr p
    \<Longrightarrow> try_block env p attempt = (Inr v, tr)
    \<Longrightarrow> attempts env retries attempt = (Inr (Some v), NewPage # tr)"
  by (subst attempts.simps) simp

lemma attempts_catch_throws:
  "attempt \<le> retries + 1 \<Longrightarrow> newPage_out env attempt = Inr p
    \<Longrightarrow> try_block env p attempt = (Inl err, tr)
    \<Longrightarrow> message_of err = Inl typeError
    \<Longrightarrow> attempts env retries attempt = (Inl (Thrown typeError), NewPage # tr)"
  by (subst attempts.simps) simp

lemma attempts_last_throw:
  "attempt = retries + 1 \<Longrightarrow> newPage_out env attempt = Inr p
    \<Longrightarrow> try_block env p attempt = (Inl err, tr)
    \<Longrightarrow> message_of err = Inr msg
    \<Longrightarrow> attempts env retries attempt = (Inl err, NewPage # tr @ [Warn attempt msg, Close p])"
  by (subst attempts.simps) simp

lemma attempts_again:
  "attempt \<le> retries \<Longrightarrow> newPage_out env attempt = Inr p
    \<Longrightarrow> try_block env p attempt = (Inl err, tr)
    \<Longrightarrow> message_of err = Inr msg
    \<Longrightarrow> attempts env retries attempt =
        (fst (attempts env retries (attempt + 1)),
         (NewPage # tr @ [Warn attempt msg, Close p]) @ snd (attempts env retries (attempt + 1)))"
  by (subst attempts.simps) (simp add: Let_def split: prod.splits)

lemma getBrowser_calls [simp]:
  "calls_fn (snd (snd (getBrowser env bp))) = 0"
  "calls_newPage (snd (snd (getBrowser env bp))) = 0"
  "calls_close (snd (snd (getBrowser env bp))) = 0"
  by (simp_all add: getBrowser_def split: option.splits)

lemma withPage_browser_ok:
  "fst (getBrowser env bp) = Inr () \<Longrightarrow>
   withPage env retries bp =
     (fst (attempts env retries 1), fst (snd (getBrowser env bp)),
      snd (snd (getBrowser env bp)) @ snd (attempts env retries 1))"
  by (cases "getBrowser env bp") (simp add: withPage_def split: prod.splits)

lemma withPage_browser_throws:
  "fst (getBrowser env bp) = Inl err \<Longrightarrow>
   withPage env retries bp = (Inl err, snd (getBrowser env bp))"
  by (cases "getBrowser env bp") (simp add: withPage_def split: prod.splits)

lemma try_block_calls:
  "calls_newPage (snd (try_block env p a)) = 0"
  "close_try_out env a = Inr () \<Longrightarrow>
     calls_close (snd (try_block env p a)) = (if isl (fst (try_block env p a)) then 0 else 1)"
  by (simp_all add: try_block_def split: sum.splits)

lemma try_block_catch_update [simp]:
  "try_block (env\<lparr>close_catch_out := f\<rparr>) p a = try_block env p a"
  by (simp add: try_block_def split: sum.splits)

subsection \<open>The retry bound, for failures whose message can be read\<close>

lemma attempts_retry:
  fixes env :: "'r env" and k r a :: int
  assumes "\<And>j. newPage_out env j = Inr (pg j)"
    and "\<And>j. setUserAgent_out env j = Inr ()"
    and "\<And>j. close_try_out env j = Inr ()"
    and "\<And>j. a \<le> j \<Longrightarrow> j \<le> k \<Longrightarrow> fn_out env (pg j) j = Inl (errs j) \<and> \<not> nullish (errs j)"
    and "fn_out env (pg (k + 1)) (k + 1) = Inr v"
    and "a \<le> k + 1" "a \<le> r + 1"
  shows "fst (attempts env r a) = (if k \<le> r then Inr (Some v) else Inl (errs (r + 1)))
       \<and> int (calls_fn (snd (attempts env r a))) = min (k + 1) (r + 1) - a + 1"
  using assms
proof (induction env r a rule: attempts.induct)
  case (1 env retries attempt)
  note pages = "1.prems"(1) and ua = "1.prems"(2) and cl = "1.prems"(3)
    and fails = "1.prems"(4) and succ = "1.prems"(5) and ak = "1.prems"(6) and ar = "1.prems"(7)
  show ?case
  proof (cases "attempt = k + 1")
    case True
    have tb: "try_block env (pg attempt) attempt =
       (Inr v, [SetUserAgent (pg attempt), CallFn (pg attempt) attempt, Close (pg attempt)])"
      using True by (simp add: try_block_def ua succ cl)
    show ?thesis using True ar attempts_return[OF ar pages tb] by simp
  next
    case False
    then have f: "fn_out env (pg attempt) attempt = Inl (errs attempt)"
      and rd: "\<not> nullish (errs attempt)"
      using fails[of attempt] ak by simp_all
    obtain msg where mo: "message_of (errs attempt) = Inr msg"
      using message_readable[OF rd] by blast
    have tb: "try_block env (pg attempt) attempt =
       (Inl (errs attempt), [SetUserAgent (pg attempt), CallFn (pg attempt) attempt])"
      using f by (simp add: try_block_def ua)
    show ?thesis
    proof (cases "attempt > retries")
      case True
      then have eq: "attempt = retries + 1" using ar by simp
      from attempts_last_throw[OF eq pages tb mo] show ?thesis using ak False eq
        by simp
    next
      case nl: False
      have ih: "fst (attempts env retries (attempt + 1))
           = (if k \<le> retries then Inr (Some v) else Inl (errs (retries + 1)))
       \<and> int (calls_fn (snd (attempts env retries (attempt + 1))))
           = min (k + 1) (retries + 1) - (attempt + 1) + 1"
        using "1.IH"[OF ar pages tb[symmetric] refl mo refl refl nl pages ua cl _ succ]
          fails ak False nl
        by simp
      have le: "attempt \<le> retries" using nl by simp
      show ?thesis
        using ih ak ar False nl attempts_again[OF le pages tb mo]
        by simp
    qed
  qed
qed

text \<open>
  The retry bound holds when no failure of \<open>fn\<close> is \<open>null\<close> or \<open>undefined\<close>. The browser
  is available, pages open, the user agent is set and \<open>page.close()\<close> after a successful
  operation does not throw, so that attempt \<open>a\<close> makes the \<open>a\<close>-th invocation of \<open>fn\<close>. The
  operation throws \<open>errs a\<close> on each attempt \<open>a\<close> from 1 to \<open>k\<close> and returns \<open>v\<close> on attempt
  \<open>k + 1\<close>. Then \<open>withPage(fn, {retries: r})\<close> returns \<open>v\<close> exactly when \<open>k \<le> r\<close>, invokes
  \<open>fn\<close> exactly \<open>min (k + 1) (r + 1)\<close> times, and when \<open>r < k\<close> throws the value of attempt
  \<open>r + 1\<close>, the last one, alone.
\<close>

lemma retry_bound_readable:
  fixes env :: "'r env" and k r :: nat
  assumes browser: "fst (getBrowser env bp) = Inr ()"
    and pages: "\<And>a. newPage_out env a = Inr (pg a)"
    and ua: "\<And>a. setUserAgent_out env a = Inr ()"
    and cl: "\<And>a. close_try_out env a = Inr ()"
    and fails: "\<And>a. 1 \<le> a \<Longrightarrow> a \<le> int k \<Longrightarrow>
                  fn_out env (pg a) a = Inl (errs a) \<and> \<not> nullish (errs a)"
    and succ: "fn_out env (pg (int k + 1)) (int k + 1) = Inr v"
  shows "(fst (withPage env (int r) bp) = Inr (Some v) \<longleftrightarrow> k \<le> r)
       \<and> calls_fn (snd (snd (withPage env (int r) bp))) = min (k + 1) (r + 1)
       \<and> (r < k \<longrightarrow> fst (withPage env (int r) bp) = Inl (errs (int r + 1)))"
proof -
  have "fst (attempts env (int r) 1)
          = (if int k \<le> int r then Inr (Some v) else Inl (errs (int r + 1)))
      \<and> int (calls_fn (snd (attempts env (int r) 1))) = min (int k + 1) (int r + 1) - 1 + 1"
    by (rule attempts_retry[OF pages ua cl fails succ]) simp_all
  then show ?thesis
    by (simp add: withPage_browser_ok[OF browser] min_def split: if_splits)
qed

text \<open>
  An operation that fails twice with an \<open>Error\<close> and then succeeds: with two retries its
  result is returned after three invocations, with one retry the second error is thrown
  after two.
\<close>

lemma retry_bound_readable_example:
  "fst (withPage env_flaky 2 None) = Inr (Some ''jobs'')
   \<and> calls_fn (snd (snd (withPage env_flaky 2 None))) = 3
   \<and> fst (withPage env_flaky 1 None) = Inl (Thrown (Error ''Navigation timeout''))
   \<and> calls_fn (snd (snd (withPage env_flaky 1 None))) = 2"
proof -
  have b: "fst (getBrowser env_flaky None) = Inr ()"
    by (simp add: getBrowser_def env_flaky_def)
  have pages: "\<And>a. newPage_out env_flaky a = Inr (nat a)"
    and ua: "\<And>a. setUserAgent_out env_flaky a = Inr ()"
    and cl: "\<And>a. close_try_out env_flaky a = Inr ()"
    by (simp_all add: env_flaky_def)
  have fails: "\<And>a. 1 \<le> a \<Longrightarrow> a \<le> int 2 \<Longrightarrow>
      fn_out env_flaky (nat a) a = Inl (Thrown (Error ''Navigation timeout''))
      \<and> \<not> nullish (Thrown (Error ''Navigation timeout''))"
    by (simp add: env_flaky_def)
  have succ: "fn_out env_flaky (nat (int 2 + 1)) (int 2 + 1) = Inr ''jobs''"
    by (simp add: env_flaky_def)
  from retry_bound_readable[of env_flaky None nat 2
        "\<lambda>a. Thrown (Error ''Navigation timeout'')" "''jobs''" 2, OF b pages ua cl fails succ]
    retry_bound_readable[of env_flaky None nat 2
        "\<lambda>a. Thrown (Error ''Navigation timeout'')" "''jobs''" 1, OF b pages ua cl fails succ]
  show ?thesis by simp
qed

text \<open>
  Claim C1 (retry bound and failure semantics): the code does not do what the claim
  says when \<open>fn\<close> rejects with \<open>null\<close> or \<open>undefined\<close>. Below, \<open>fn\<close> rejects with \<open>null\<close> on
  its first invocation and would return \<open>jobs\<close> on the second; two retries are allowed
  (\<open>k = 1\<close>, \<open>r = 2\<close>). The \<open>catch\<close> clause reads \<open>err.message\<close> (line 34) and throws a
  \<open>TypeError\<close>: \<open>withPage\<close> throws it after one invocation of \<open>fn\<close>, with no retry and
  without closing the page, where the claim has the result returned after two
  invocations.
\<close>

theorem null_rejection_not_retried:
  "withPage env_null 2 None =
     (Inl (Thrown (Error ''Cannot read properties of null (reading 'message')'')),
      Some (Inr ()),
      [Launch, NewPage, SetUserAgent 1, CallFn 1 1])
   \<and> calls_fn (snd (snd (withPage env_null 2 None))) = 1
   \<and> calls_close (snd (snd (withPage env_null 2 None))) = 0"
  by (simp add: withPage_def getBrowser_def attempts.simps[of _ _ 1] try_block_def env_null_def)

subsection \<open>Pages opened and closed\<close>

lemma attempts_opened_closed:
  assumes "\<And>j. newPage_out env j = Inr (pg j)"
    and "\<And>j. close_try_out env j = Inr ()"
    and "\<And>j err tr. try_block env (pg j) j = (Inl err, tr) \<Longrightarrow> \<not> nullish err"
  shows "calls_newPage (snd (attempts env retries a)) = calls_close (snd (attempts env retries a))"
  using assms
proof (induction env retries a rule: attempts.induct)
  case (1 env retries attempt)
  note pages = "1.prems"(1) and cl = "1.prems"(2) and rd = "1.prems"(3)
  obtain res tr where tb: "try_block env (pg attempt) attempt = (res, tr)"
    by (cases "try_block env (pg attempt) attempt")
  have cnt: "calls_newPage tr = 0" "calls_close tr = (if isl res then 0 else 1)"
    using try_block_calls(1)[of env "pg attempt" attempt]
      try_block_calls(2)[of env attempt "pg attempt", OF cl] tb by simp_all
  consider (over) "retries + 1 < attempt"
    | (ret) v where "attempt \<le> retries + 1" "res = Inr v"
    | (last) err msg where "attempt = retries + 1" "res = Inl err" "message_of err = Inr msg"
    | (again) err msg where "attempt \<le> retries" "res = Inl err" "message_of err = Inr msg"
  proof (cases res)
    case (Inl err)
    then have "\<not> nullish err" using rd[of attempt err tr] tb by simp
    then obtain msg where "message_of err = Inr msg" using message_readable by blast
    then show ?thesis using Inl that(1) that(3)[of err msg] that(4)[of err msg] by force
  next
    case (Inr v)
    then show ?thesis using that(1) that(2)[of v] by force
  qed
  then show ?case
  proof cases
    case over
    then show ?thesis by (simp add: attempts_done)
  next
    case ret
    then show ?thesis using attempts_return[OF ret(1) pages, of v tr] tb cnt by simp
  next
    case last
    then show ?thesis
      using attempts_last_throw[OF last(1) pages _ last(3), of tr] tb cnt by simp
  next
    case again
    have le: "attempt \<le> retries + 1" and nl: "\<not> retries < attempt" using again(1) by simp_all
    have tb': "(Inl err, tr) = try_block env (pg attempt) attempt" using tb again(2) by simp
    have ih: "calls_newPage (snd (attempts env retries (attempt + 1)))
            = calls_close (snd (attempts env retries (attempt + 1)))"
      using "1.IH"[OF le pages tb' refl again(3) refl refl nl pages cl rd] by simp
    then show ?thesis
      using attempts_again[OF again(1) pages _ again(3), of tr] tb cnt again by simp
  qed
qed

lemma attempts_catch_update:
  "attempts (env\<lparr>close_catch_out := f\<rparr>) retries a = attempts env retries a"
proof (induction env retries a rule: attempts.induct)
  case (1 env retries attempt)
  let ?env = "env\<lparr>close_catch_out := f\<rparr>"
  show ?case
  proof (cases "attempt \<le> retries + 1")
    case False
    then show ?thesis by (simp add: attempts_done)
  next
    case le: True
    show ?thesis
    proof (cases "newPage_out env attempt")
      case (Inl err)
      then show ?thesis using le
        by (simp add: attempts_newPage_throws)
    next
      case np: (Inr p)
      then have np': "newPage_out ?env attempt = Inr p" by simp
      obtain res tr where tb: "try_block env p attempt = (res, tr)"
        by (cases "try_block env p attempt")
      then have tb': "try_block ?env p attempt = (res, tr)" by simp
      show ?thesis
      proof (cases res)
        case (Inr v)
        then show ?thesis
          using attempts_return[OF le np, of v tr] attempts_return[OF le np', of v tr] tb tb'
          by simp
      next
        case (Inl err)
        show ?thesis
        proof (cases "message_of err")
          case te: (Inl typeError)
          show ?thesis
            using attempts_catch_throws[OF le np _ te, of tr]
              attempts_catch_throws[OF le np' _ te, of tr] tb tb' Inl
            by simp
        next
          case mo: (Inr msg)
          show ?thesis
          proof (cases "attempt \<le> retries")
            case True
            then have nl: "\<not> retries < attempt" by simp
            have tbs: "(Inl err, tr) = try_block env p attempt" using tb Inl by simp
            have ih: "attempts ?env retries (attempt + 1) = attempts env retries (attempt + 1)"
              using "1.IH"[OF le np tbs refl mo refl refl nl] .
            show ?thesis
              using attempts_again[OF True np _ mo, of tr]
                attempts_again[OF True np' _ mo, of tr] tb tb' Inl ih
              by simp
          next
            case False
            then have eq: "attempt = retries + 1" using le by simp
            show ?thesis
              using attempts_last_throw[OF eq np _ mo, of tr]
                attempts_last_throw[OF eq np' _ mo, of tr] tb tb' Inl
              by simp
          qed
        qed
      qed
    qed
  qed
qed

lemma attempts_throw_origin:
  assumes "fst (attempts env retries a) = Inl thrown"
    and "\<And>j. newPage_out env j = Inr (pg j)"
    and "\<And>j err tr. try_block env (pg j) j = (Inl err, tr) \<Longrightarrow> \<not> nullish err"
  shows "\<exists>tr. try_block env (pg (retries + 1)) (retries + 1) = (Inl thrown, tr)"
  using assms
proof (induction env retries a rule: attempts.induct)
  case (1 env retries attempt)
  note thr = "1.prems"(1) and pages = "1.prems"(2) and rd = "1.prems"(3)
  obtain res tr where tb: "try_block env (pg attempt) attempt = (res, tr)"
    by (cases "try_block env (pg attempt) attempt")
  consider (over) "retries + 1 < attempt"
    | (ret) v where "attempt \<le> retries + 1" "res = Inr v"
    | (last) err msg where "attempt = retries + 1" "res = Inl err" "message_of err = Inr msg"
    | (again) err msg where "attempt \<le> retries" "res = Inl err" "message_of err = Inr msg"
  proof (cases res)
    case (Inl err)
    then have "\<not> nullish err" using rd[of attempt err tr] tb by simp
    then obtain msg where "message_of err = Inr msg" using message_readable by blast
    then show ?thesis using Inl that(1) that(3)[of err msg] that(4)[of err msg] by force
  next
    case (Inr v)
    then show ?thesis using that(1) that(2)[of v] by force
  qed
  then show ?case
  proof cases
    case over
    then show ?thesis using thr by (simp add: attempts_done)
  next
    case ret
    then show ?thesis using attempts_return[OF ret(1) pages, of v tr] tb thr by simp
  next
    case last
    then show ?thesis
      using attempts_last_throw[OF last(1) pages _ last(3), of tr] tb thr by simp
  next
    case again
    have le: "attempt \<le> retries + 1" and nl: "\<not> retries < attempt" using again(1) by simp_all
    have tb': "(Inl err, tr) = try_block env (pg attempt) attempt" using tb again(2) by simp
    have "fst (attempts env retries (attempt + 1)) = Inl thrown"
      using attempts_again[OF again(1) pages _ again(3), of tr] tb thr again by simp
    then show ?thesis
      using "1.IH"[OF le pages tb' refl again(3) refl refl nl _ pages rd] by simp
  qed
qed

text \<open>
  Claim C2, amended (page always released). In every run of \<open>withPage\<close> in which
  \<open>browser.newPage()\<close> does not throw, \<open>page.close()\<close> does not throw after a successful
  operation and no attempt fails with \<open>null\<close> or \<open>undefined\<close>, whether the operation
  succeeds or fails on each attempt, the number of \<open>newPage\<close> calls equals the number of
  \<open>page.close\<close> calls. What \<open>page.close()\<close> does in the \<open>catch\<close> block changes neither the
  result nor the calls of \<open>withPage\<close> (in every run), and what \<open>withPage\<close> throws is what
  the browser launch threw or what the \<open>try\<close> block of the last attempt threw, never an
  error of the \<open>catch\<close> block's close.
\<close>

theorem withPage_pages_released:
  fixes env :: "'r env"
  assumes pages: "\<And>a. newPage_out env a = Inr (pg a)"
    and cl: "\<And>a. close_try_out env a = Inr ()"
    and readable: "\<And>a err tr. try_block env (pg a) a = (Inl err, tr) \<Longrightarrow> \<not> nullish err"
  shows "calls_newPage (snd (snd (withPage env retries bp)))
           = calls_close (snd (snd (withPage env retries bp)))
       \<and> withPage (env\<lparr>close_catch_out := f\<rparr>) retries bp = withPage env retries bp
       \<and> (fst (withPage env retries bp) = Inl thrown \<longrightarrow>
            fst (getBrowser env bp) = Inl thrown
          \<or> (\<exists>tr. try_block env (pg (retries + 1)) (retries + 1) = (Inl thrown, tr)))"
proof (intro conjI impI)
  show "calls_newPage (snd (snd (withPage env retries bp)))
           = calls_close (snd (snd (withPage env retries bp)))"
  proof (cases "fst (getBrowser env bp)")
    case (Inl e)
    then show ?thesis by (simp add: withPage_browser_throws)
  next
    case (Inr u)
    then show ?thesis
      using attempts_opened_closed[where retries = retries and a = 1, OF pages cl readable]
      by (simp add: withPage_browser_ok)
  qed
next
  have "getBrowser (env\<lparr>close_catch_out := f\<rparr>) bp = getBrowser env bp"
    by (simp add: getBrowser_def split: option.splits)
  then show "withPage (env\<lparr>close_catch_out := f\<rparr>) retries bp = withPage env retries bp"
    by (simp add: withPage_def attempts_catch_update split: prod.splits sum.splits)
next
  assume thr: "fst (withPage env retries bp) = Inl thrown"
  show "fst (getBrowser env bp) = Inl thrown
          \<or> (\<exists>tr. try_block env (pg (retries + 1)) (retries + 1) = (Inl thrown, tr))"
  proof (cases "fst (getBrowser env bp)")
    case (Inl e)
    then show ?thesis using thr by (simp add: withPage_browser_throws)
  next
    case (Inr u)
    then have "fst (attempts env retries 1) = Inl thrown"
      using thr by (simp add: withPage_browser_ok)
    from attempts_throw_origin[OF this pages readable] show ?thesis by simp
  qed
qed

subsection \<open>A page that cannot be opened\<close>

lemma attempts_reach:
  assumes "a \<le> b" "b \<le> retries + 1"
    and "\<And>j. a \<le> j \<Longrightarrow> j < b \<Longrightarrow>
           \<exists>p e tr. newPage_out env j = Inr p \<and> try_block env p j = (Inl e, tr) \<and> \<not> nullish e"
  shows "fst (attempts env retries a) = fst (attempts env retries b)
       \<and> int (calls_newPage (snd (attempts env retries a)))
           = b - a + int (calls_newPage (snd (attempts env retries b)))
       \<and> (snd (attempts env retries b) \<noteq> [] \<longrightarrow>
            snd (attempts env retries a) \<noteq> [] \<and>
            last (snd (attempts env retries a)) = last (snd (attempts env retries b)))"
  using assms
proof (induction env retries a rule: attempts.induct)
  case (1 env retries attempt)
  note ab = "1.prems"(1) and br = "1.prems"(2) and fl = "1.prems"(3)
  show ?case
  proof (cases "attempt = b")
    case True
    then show ?thesis by simp
  next
    case False
    then have lt: "attempt < b" using ab by simp
    then have le: "attempt \<le> retries" using br by simp
    then have le1: "attempt \<le> retries + 1" and nl: "\<not> retries < attempt" by simp_all
    obtain p e tr where np: "newPage_out env attempt = Inr p"
      and tb: "try_block env p attempt = (Inl e, tr)" and rd: "\<not> nullish e"
      using fl[of attempt] lt by auto
    obtain msg where mo: "message_of e = Inr msg" using message_readable[OF rd] by blast
    have ih: "fst (attempts env retries (attempt + 1)) = fst (attempts env retries b)
       \<and> int (calls_newPage (snd (attempts env retries (attempt + 1))))
           = b - (attempt + 1) + int (calls_newPage (snd (attempts env retries b)))
       \<and> (snd (attempts env retries b) \<noteq> [] \<longrightarrow>
            snd (attempts env retries (attempt + 1)) \<noteq> [] \<and>
            last (snd (attempts env retries (attempt + 1))) = last (snd (attempts env retries b)))"
      using "1.IH"[OF le1 np tb[symmetric] refl mo refl refl nl _ br] lt fl by simp
    have cn: "calls_newPage tr = 0"
      using try_block_calls(1)[of env p attempt] tb by simp
    show ?thesis
      using attempts_again[OF le np tb mo] ih cn by simp
  qed
qed

text \<open>
  Claim C3, amended (page creation failure). \<open>browser.newPage()\<close> is called outside
  the \<open>try\<close> block. When it throws in attempt \<open>a\<close>, reached because every earlier attempt
  failed inside its \<open>try\<close> block (with a value other than \<open>null\<close> and \<open>undefined\<close>, which
  end the run in the \<open>catch\<close> clause), \<open>withPage\<close> throws what \<open>newPage\<close> threw at once: the
  failed \<open>newPage\<close> call is the last call it makes, the \<open>a\<close>-th \<open>newPage\<close> call, and no
  further attempt follows, whatever is left of the \<open>retries + 1\<close> attempts.
\<close>

theorem withPage_newPage_throws:
  fixes env :: "'r env"
  assumes browser: "fst (getBrowser env bp) = Inr ()"
    and a: "1 \<le> a" "a \<le> retries + 1"
    and thr: "newPage_out env a = Inl err"
    and before: "\<And>j. 1 \<le> j \<Longrightarrow> j < a \<Longrightarrow>
           \<exists>p e tr. newPage_out env j = Inr p \<and> try_block env p j = (Inl e, tr) \<and> \<not> nullish e"
  shows "fst (withPage env retries bp) = Inl err
       \<and> int (calls_newPage (snd (snd (withPage env retries bp)))) = a
       \<and> last (snd (snd (withPage env retries bp))) = NewPage"
proof -
  have here: "attempts env retries a = (Inl err, [NewPage])"
    using attempts_newPage_throws[OF a(2) thr] .
  from attempts_reach[OF a(1) a(2) before] here
  show ?thesis
    by (simp add: withPage_browser_ok[OF browser])
qed

subsection \<open>Runs on concrete collaborators\<close>

text \<open>
  Claim C2 as stated fails: with \<open>retries = 0\<close>, the operation succeeds and the
  \<open>page.close()\<close> of line 31 throws. The \<open>catch\<close> clause closes the same page again: one
  \<open>newPage\<close> call, two \<open>page.close\<close> calls.
\<close>

theorem withPage_double_close_counterexample:
  "calls_newPage (snd (snd (withPage env_close_throws 0 None))) = 1
   \<and> calls_close (snd (snd (withPage env_close_throws 0 None))) = 2"
  by (simp add: withPage_def getBrowser_def attempts.simps[of _ _ 1] try_block_def
      env_close_throws_def swallow_def)

text \<open>
  Both attempts fail with a navigation timeout and every close in the \<open>catch\<close> block
  throws a protocol error: two pages opened, two closed, and the timeout is what the
  last \<open>try\<close> block threw.
\<close>

theorem withPage_pages_released_witness:
  "calls_newPage (snd (snd (withPage env_flaky 1 None)))
     = calls_close (snd (snd (withPage env_flaky 1 None)))
   \<and> withPage (env_flaky\<lparr>close_catch_out := (\<lambda>a. Inr ())\<rparr>) 1 None = withPage env_flaky 1 None
   \<and> (\<exists>tr. try_block env_flaky 2 2 = (Inl (Thrown (Error ''Navigation timeout'')), tr))"
proof -
  have pages: "\<And>a. newPage_out env_flaky a = Inr (nat a)"
    and cl: "\<And>a. close_try_out env_flaky a = Inr ()"
    by (simp_all add: env_flaky_def)
  have readable: "\<not> nullish err" if "try_block env_flaky (nat a) a = (Inl err, tr)" for a err tr
    using that by (auto simp: try_block_def env_flaky_def split: if_splits)
  have thr: "fst (withPage env_flaky 1 None) = Inl (Thrown (Error ''Navigation timeout''))"
    by (simp add: withPage_def getBrowser_def attempts.simps[of _ _ 1] attempts.simps[of _ _ 2]
        try_block_def env_flaky_def swallow_def)
  have nb: "fst (getBrowser env_flaky None) \<noteq> Inl (Thrown (Error ''Navigation timeout''))"
    by (simp add: getBrowser_def env_flaky_def)
  from withPage_pages_released[where env = env_flaky and pg = nat and f = "\<lambda>a. Inr ()"
      and retries = 1 and bp = None and thrown = "Thrown (Error ''Navigation timeout'')",
      OF pages cl readable] thr nb
  show ?thesis by simp
qed

text \<open>
  Claim C3 as stated fails: with \<open>retries = 2\<close>, \<open>newPage\<close> throws in attempt 1 and would
  succeed in attempt 2. \<open>withPage\<close> throws the error after that single \<open>newPage\<close> call.
\<close>

theorem withPage_newPage_no_retry_counterexample:
  "fst (withPage env_no_page 2 None) = Inl (Thrown (Error ''Target closed''))
   \<and> calls_newPage (snd (snd (withPage env_no_page 2 None))) = 1"
  by (simp add: withPage_def getBrowser_def attempts.simps[of _ _ 1] env_no_page_def)

text \<open>
  Attempt 1 fails inside \<open>fn\<close>, attempt 2 cannot open a page: the error of \<open>newPage\<close>
  is thrown although a third attempt was allowed.
\<close>

theorem withPage_newPage_throws_witness:
  "fst (withPage env_down 2 None) = Inl (Thrown (Error ''Target closed''))
   \<and> calls_newPage (snd (snd (withPage env_down 2 None))) = 2
   \<and> last (snd (snd (withPage env_down 2 None))) = NewPage"
proof -
  have b: "fst (getBrowser env_down None) = Inr ()"
    by (simp add: getBrowser_def env_down_def)
  have thr: "newPage_out env_down 2 = Inl (Thrown (Error ''Target closed''))"
    by (simp add: env_down_def)
  have before: "\<exists>p e tr. newPage_out env_down j = Inr p \<and> try_block env_down p j = (Inl e, tr)
      \<and> \<not> nullish e"
    if "1 \<le> j" "j < 2" for j
  proof -
    have "j = 1" using that by simp
    then show ?thesis by (simp add: env_down_def try_block_def)
  qed
  from withPage_newPage_throws[where env = env_down and bp = None and a = 2 and retries = 2
      and err = "Thrown (Error ''Target closed'')", OF b _ _ thr before]
  show ?thesis by simp
qed

section \<open>Properties of the model fallback\<close>

lemma tryModel_fails:
  "\<not> probe_succeeds (probe_out env (length (probes s)) m) \<Longrightarrow>
   fst (tryModel env m s) = False
   \<and> probes (snd (tryModel env m s)) = probes s @ [m]
   \<and> model (snd (tryModel env m s)) = model s
   \<and> activeModelName (snd (tryModel env m s)) = activeModelName s
   \<and> cache (snd (tryModel env m s)) = cache s
   \<and> fetches (snd (tryModel env m s)) = fetches s
   \<and> generate_calls (snd (tryModel env m s)) = generate_calls s
   \<and> stream_calls (snd (tryModel env m s)) = stream_calls s"
  by (cases "probe_out env (length (probes s)) m")
     (auto simp: tryModel_def probe_succeeds_def Let_def split: sum.splits)

lemma tryModel_succeeds:
  "probe_succeeds (probe_out env (length (probes s)) m) \<Longrightarrow>
   fst (tryModel env m s) = True
   \<and> probes (snd (tryModel env m s)) = probes s @ [m]
   \<and> model (snd (tryModel env m s)) = Some m
   \<and> activeModelName (snd (tryModel env m s)) = Some m
   \<and> cache (snd (tryModel env m s)) = cache s
   \<and> fetches (snd (tryModel env m s)) = fetches s
   \<and> generate_calls (snd (tryModel env m s)) = generate_calls s
   \<and> stream_calls (snd (tryModel env m s)) = stream_calls s"
  by (cases "probe_out env (length (probes s)) m")
     (auto simp: tryModel_def probe_succeeds_def Let_def split: sum.splits)

lemma tryModels_all_fail:
  "(\<And>j. j < length ms \<Longrightarrow> \<not> probe_succeeds (probe_out env (length (probes s) + j) (ms ! j))) \<Longrightarrow>
   fst (tryModels env ms s) = False
   \<and> probes (snd (tryModels env ms s)) = probes s @ ms
   \<and> model (snd (tryModels env ms s)) = model s
   \<and> activeModelName (snd (tryModels env ms s)) = activeModelName s
   \<and> cache (snd (tryModels env ms s)) = cache s
   \<and> fetches (snd (tryModels env ms s)) = fetches s
   \<and> generate_calls (snd (tryModels env ms s)) = generate_calls s
   \<and> stream_calls (snd (tryModels env ms s)) = stream_calls s"
proof (induction ms arbitrary: s)
  case Nil
  then show ?case by simp
next
  case (Cons m ms)
  have f: "\<not> probe_succeeds (probe_out env (length (probes s)) m)"
    using Cons.prems[of 0] by simp
  note t = tryModel_fails[OF f]
  obtain s' where s': "tryModel env m s = (False, s')"
    using t by (cases "tryModel env m s") simp
  have rest: "\<not> probe_succeeds (probe_out env (length (probes s') + j) (ms ! j))"
    if "j < length ms" for j
    using Cons.prems[of "Suc j"] that t s' by simp
  from Cons.IH[of s', OF rest] t s' show ?case by simp
qed

lemma tryModels_first_success:
  assumes "i < length ms"
    and "probe_succeeds (probe_out env (length (probes s) + i) (ms ! i))"
    and "\<And>j. j < i \<Longrightarrow> \<not> probe_succeeds (probe_out env (length (probes s) + j) (ms ! j))"
  shows "fst (tryModels env ms s) = True
   \<and> probes (snd (tryModels env ms s)) = probes s @ take (Suc i) ms
   \<and> model (snd (tryModels env ms s)) = Some (ms ! i)
   \<and> activeModelName (snd (tryModels env ms s)) = Some (ms ! i)"
  using assms
proof (induction ms arbitrary: s i)
  case Nil
  then show ?case by simp
next
  case (Cons m ms)
  show ?case
  proof (cases i)
    case 0
    then have ok: "probe_succeeds (probe_out env (length (probes s)) m)"
      using Cons.prems(2) by simp
    note t = tryModel_succeeds[OF ok]
    obtain s' where s': "tryModel env m s = (True, s')"
      using t by (cases "tryModel env m s") simp
    show ?thesis using t s' 0 by simp
  next
    case (Suc i')
    have f: "\<not> probe_succeeds (probe_out env (length (probes s)) m)"
      using Cons.prems(3)[of 0] Suc by simp
    note t = tryModel_fails[OF f]
    obtain s' where s': "tryModel env m s = (False, s')"
      using t by (cases "tryModel env m s") simp
    have a: "i' < length ms" using Cons.prems(1) Suc by simp
    have b: "probe_succeeds (probe_out env (length (probes s') + i') (ms ! i'))"
      using Cons.prems(2) Suc t s' by simp
    have c: "\<not> probe_succeeds (probe_out env (length (probes s') + j) (ms ! j))" if "j < i'" for j
      using Cons.prems(3)[of "Suc j"] that Suc t s' by simp
    from Cons.IH[OF a b c] t s' Suc show ?thesis by simp
  qed
qed


lemma length_fastModels [simp]: "length fastModels = 6"
  by (simp add: fastModels_def)

lemma init_hardcoded:
  "fst (tryModels env fastModels s) \<Longrightarrow> init env s = snd (tryModels env fastModels s)"
  by (cases "tryModels env fastModels s") (simp add: init_def)

lemma init_discovered:
  "\<not> fst (tryModels env fastModels s) \<Longrightarrow> availableModels env = Inr (Some ns) \<Longrightarrow>
   init env s =
     snd (tryModels env ns
       ((snd (tryModels env fastModels s))\<lparr>fetches := fetches (snd (tryModels env fastModels s)) + 1\<rparr>))"
  by (cases "tryModels env fastModels s") (simp add: init_def Let_def)

lemma init_no_discovery:
  "\<not> fst (tryModels env fastModels s) \<Longrightarrow> \<forall>ns. availableModels env \<noteq> Inr (Some ns) \<Longrightarrow>
   init env s =
     (snd (tryModels env fastModels s))\<lparr>fetches := fetches (snd (tryModels env fastModels s)) + 1\<rparr>"
  by (cases "tryModels env fastModels s")
     (auto simp: init_def Let_def split: sum.splits option.splits)

lemma candidates_discovered:
  "availableModels env = Inr (Some ns) \<Longrightarrow> candidates env = fastModels @ ns"
  by (simp add: candidates_def)

lemma candidates_no_discovery:
  "\<forall>ns. availableModels env \<noteq> Inr (Some ns) \<Longrightarrow> candidates env = fastModels"
  by (auto simp: candidates_def split: sum.splits option.splits)

lemma init_first_success:
  assumes i: "i < length (candidates env)"
    and ok: "probe_succeeds (probe_out env (length (probes s) + i) (candidates env ! i))"
    and before: "\<And>j. j < i \<Longrightarrow>
        \<not> probe_succeeds (probe_out env (length (probes s) + j) (candidates env ! j))"
  shows "activeModelName (init env s) = Some (candidates env ! i)
       \<and> model (init env s) = Some (candidates env ! i)
       \<and> probes (init env s) = probes s @ take (Suc i) (candidates env)"
proof (cases "i < 6")
  case True
  have c: "candidates env ! j = fastModels ! j" if "j \<le> i" for j
    using that True by (simp add: candidates_def nth_append)
  have t: "take (Suc i) (candidates env) = take (Suc i) fastModels"
    using True by (simp add: candidates_def)
  have "i < length fastModels" using True by simp
  from tryModels_first_success[OF this, of env s] ok before c
  have r: "fst (tryModels env fastModels s) = True
   \<and> probes (snd (tryModels env fastModels s)) = probes s @ take (Suc i) fastModels
   \<and> model (snd (tryModels env fastModels s)) = Some (fastModels ! i)
   \<and> activeModelName (snd (tryModels env fastModels s)) = Some (fastModels ! i)"
    by simp
  then show ?thesis using init_hardcoded[of env s] c[of i] t by simp
next
  case False
  then have i6: "6 \<le> i" by simp
  have hard: "\<not> probe_succeeds (probe_out env (length (probes s) + j) (fastModels ! j))"
    if "j < length fastModels" for j
    using before[of j] that i6 by (simp add: candidates_def nth_append)
  note h = tryModels_all_fail[of fastModels env s, OF hard]
  obtain ns where ns: "availableModels env = Inr (Some ns)"
    using i False by (auto simp: candidates_def split: sum.splits option.splits)
  have cs: "candidates env = fastModels @ ns" using candidates_discovered[OF ns] .
  define s1 where "s1 = (snd (tryModels env fastModels s))\<lparr>fetches := fetches (snd (tryModels env fastModels s)) + 1\<rparr>"
  have p1: "probes s1 = probes s @ fastModels" using h by (simp add: s1_def)
  have a: "i - 6 < length ns" using i i6 cs by simp
  have b: "probe_succeeds (probe_out env (length (probes s1) + (i - 6)) (ns ! (i - 6)))"
    using ok i6 cs p1 by (simp add: nth_append)
  have c: "\<not> probe_succeeds (probe_out env (length (probes s1) + j) (ns ! j))" if "j < i - 6" for j
    using before[of "6 + j"] that i6 cs p1 by (simp add: nth_append add.assoc)
  from tryModels_first_success[OF a b c]
  have r: "probes (snd (tryModels env ns s1)) = probes s1 @ take (Suc (i - 6)) ns
   \<and> model (snd (tryModels env ns s1)) = Some (ns ! (i - 6))
   \<and> activeModelName (snd (tryModels env ns s1)) = Some (ns ! (i - 6))"
    by simp
  have "init env s = snd (tryModels env ns s1)"
    using init_discovered[OF _ ns, of s] h by (simp add: s1_def)
  moreover have "Suc i - 6 = Suc (i - 6)" using i6 by simp
  ultimately show ?thesis using r p1 cs i6 by (simp add: nth_append)
qed

text \<open>
  Claim C4 (first success wins). For every candidate list \<open>ms\<close>, when the probe of
  the candidate at position \<open>i\<close> succeeds and the probes of the candidates before it
  fail, the probing loop leaves \<open>init\<close> by \<open>return\<close> with that identifier recorded as
  active, and the probes it has made are those of the candidates up to position \<open>i\<close>, in
  list order: no later candidate is probed. \<open>init\<close> does so on its own candidates, the
  hardcoded identifiers followed by the discovered ones.
\<close>

theorem first_success_wins:
  assumes i: "i < length ms"
    and ok: "probe_succeeds (probe_out env (length (probes s) + i) (ms ! i))"
    and before: "\<And>j. j < i \<Longrightarrow> \<not> probe_succeeds (probe_out env (length (probes s) + j) (ms ! j))"
  shows "fst (tryModels env ms s) = True
       \<and> activeModelName (snd (tryModels env ms s)) = Some (ms ! i)
       \<and> model (snd (tryModels env ms s)) = Some (ms ! i)
       \<and> probes (snd (tryModels env ms s)) = probes s @ take (Suc i) ms
       \<and> (ms = candidates env \<longrightarrow>
            activeModelName (init env s) = Some (ms ! i)
          \<and> model (init env s) = Some (ms ! i)
          \<and> probes (init env s) = probes s @ take (Suc i) ms)"
  using tryModels_first_success[OF i ok before] init_first_success[of i env s] i ok before
  by blast

lemma ensureReady_fields [simp]:
  "model (ensureReady s) = model s"
  "cache (ensureReady s) = cache s"
  "generate_calls (ensureReady s) = generate_calls s"
  "stream_calls (ensureReady s) = stream_calls s"
  "clock_reads (ensureReady s) = clock_reads s"
  "probes (ensureReady s) = probes s"
  "activeModelName (ensureReady s) = activeModelName s"
  by (simp_all add: ensureReady_def)

lemma generateRaw_uninitialized:
  "model s = None \<Longrightarrow> generateRaw env prompt s = (Inl not_initialized, ensureReady s)"
  by (simp add: generateRaw_def not_initialized_def Let_def)

lemma generateStream_uninitialized:
  "model s = None \<Longrightarrow> generateStream env prompt s = (Inl not_initialized, ensureReady s)"
  by (simp add: generateStream_def not_initialized_def Let_def)

lemma run_calls_uninitialized:
  "model s = None \<Longrightarrow>
   fst (run_calls env cs s) = replicate (length cs) (Inl not_initialized)
   \<and> model (snd (run_calls env cs s)) = None
   \<and> generate_calls (snd (run_calls env cs s)) = generate_calls s
   \<and> stream_calls (snd (run_calls env cs s)) = stream_calls s
   \<and> probes (snd (run_calls env cs s)) = probes s"
proof (induction cs arbitrary: s)
  case Nil
  then show ?case by simp
next
  case (Cons c cs)
  have m: "model (ensureReady s) = None" using Cons.prems by simp
  show ?case
    using Cons.IH[OF m] Cons.prems
    by (cases c; cases "run_calls env cs (ensureReady s)")
       (simp_all add: generateRaw_uninitialized generateStream_uninitialized)
qed


lemma init_all_fail:
  assumes "\<And>j. j < length (candidates env) \<Longrightarrow>
      \<not> probe_succeeds (probe_out env (length (probes s) + j) (candidates env ! j))"
  shows "model (init env s) = model s \<and> activeModelName (init env s) = activeModelName s
       \<and> probes (init env s) = probes s @ candidates env
       \<and> fetches (init env s) = fetches s + 1
       \<and> generate_calls (init env s) = generate_calls s
       \<and> stream_calls (init env s) = stream_calls s
       \<and> cache (init env s) = cache s"
proof -
  have hard: "\<not> probe_succeeds (probe_out env (length (probes s) + j) (fastModels ! j))"
    if "j < length fastModels" for j
    using assms[of j] that by (simp add: candidates_def nth_append)
  note h = tryModels_all_fail[of fastModels env s, OF hard]
  define s1 where "s1 = (snd (tryModels env fastModels s))\<lparr>fetches := fetches (snd (tryModels env fastModels s)) + 1\<rparr>"
  show ?thesis
  proof (cases "\<exists>ns. availableModels env = Inr (Some ns)")
    case False
    then have n: "\<forall>ns. availableModels env \<noteq> Inr (Some ns)" by simp
    show ?thesis
      using init_no_discovery[OF _ n, of s] h candidates_no_discovery[OF n] by simp
  next
    case True
    then obtain ns where ns: "availableModels env = Inr (Some ns)" by blast
    have cs: "candidates env = fastModels @ ns" using candidates_discovered[OF ns] .
    have p1: "probes s1 = probes s @ fastModels" using h by (simp add: s1_def)
    have c: "\<not> probe_succeeds (probe_out env (length (probes s1) + j) (ns ! j))" if "j < length ns" for j
      using assms[of "6 + j"] that cs p1 by (simp add: nth_append add.assoc)
    note d = tryModels_all_fail[of ns env s1, OF c]
    have "init env s = snd (tryModels env ns s1)"
      using init_discovered[OF _ ns, of s] h by (simp add: s1_def)
    then show ?thesis using d h p1 cs by (simp add: s1_def)
  qed
qed

text \<open>
  Claim C5 (uninitialized gateway). When the probe of every hardcoded candidate fails
  and the discovery gives no list or a list whose probes fail too, the service is left
  without a model after one discovery request, and every later sequence \<open>cs\<close> of calls of
  \<open>generateRaw\<close> and \<open>generateStream\<close> throws \<open>No active Gemini model initialized\<close> at each
  call, with no generation request to the backend.
\<close>

theorem uninitialized_gateway:
  assumes "\<And>j. j < length (candidates env) \<Longrightarrow>
      \<not> probe_succeeds (probe_out env j (candidates env ! j))"
  shows "model (constructor env) = None
       \<and> activeModelName (constructor env) = None
       \<and> probes (constructor env) = candidates env
       \<and> fetches (constructor env) = 1
       \<and> fst (run_calls env cs (constructor env)) = replicate (length cs) (Inl not_initialized)
       \<and> generate_calls (snd (run_calls env cs (constructor env))) = []
       \<and> stream_calls (snd (run_calls env cs (constructor env))) = []"
proof -
  have "\<not> probe_succeeds (probe_out env (length (probes fresh) + j) (candidates env ! j))"
    if "j < length (candidates env)" for j
    using assms[OF that] by (simp add: fresh_def)
  from init_all_fail[of env fresh, OF this]
  have i: "model (constructor env) = None" "activeModelName (constructor env) = None"
    "probes (constructor env) = candidates env" "fetches (constructor env) = 1"
    "generate_calls (constructor env) = []" "stream_calls (constructor env) = []"
    by (simp_all add: constructor_def fresh_def)
  from run_calls_uninitialized[OF i(1), of env cs] i show ?thesis by simp
qed

lemma candidates_abc: "candidates backend_abc = fastModels"
  by (simp add: candidates_def availableModels_def backend_abc_def)

text \<open>
  Candidates \<open>[A, B, C]\<close> where \<open>A\<close> fails and \<open>B\<close> and \<open>C\<close> would succeed: \<open>B\<close> is selected
  and \<open>C\<close> is not probed. The same with the hardcoded list, whose first entry fails.
\<close>

theorem first_success_wins_witness:
  "activeModelName (snd (tryModels backend_abc [''A'', ''B'', ''C''] fresh)) = Some ''B''
   \<and> probes (snd (tryModels backend_abc [''A'', ''B'', ''C''] fresh)) = [''A'', ''B'']
   \<and> activeModelName (init backend_abc fresh) = Some ''gemini-2.0-flash-exp''
   \<and> probes (init backend_abc fresh) = [''gemini-1.5-flash-8b'', ''gemini-2.0-flash-exp'']"
proof -
  have ok: "probe_succeeds (probe_out backend_abc (length (probes fresh) + 1) ([''A'', ''B'', ''C''] ! 1))"
    by (simp add: probe_succeeds_def backend_abc_def)
  have before: "\<not> probe_succeeds (probe_out backend_abc (length (probes fresh) + j) ([''A'', ''B'', ''C''] ! j))"
    if "j < 1" for j
    using that by (simp add: probe_succeeds_def backend_abc_def)
  have ok': "probe_succeeds (probe_out backend_abc (length (probes fresh) + 1) (candidates backend_abc ! 1))"
    unfolding candidates_abc by (simp add: probe_succeeds_def backend_abc_def fastModels_def)
  have before': "\<not> probe_succeeds (probe_out backend_abc (length (probes fresh) + j) (candidates backend_abc ! j))"
    if "j < 1" for j
    using that unfolding candidates_abc by (simp add: probe_succeeds_def backend_abc_def fastModels_def)
  have p: "probes fresh = []" by (simp add: fresh_def)
  from first_success_wins[of 1 "[''A'', ''B'', ''C'']" backend_abc fresh, OF _ ok before]
    first_success_wins[of 1 "candidates backend_abc" backend_abc fresh, OF _ ok' before']
  show ?thesis by (simp add: candidates_abc fastModels_def p)
qed

lemma candidates_dead: "candidates backend_dead = fastModels @ [''gemini-x'']"
  by (simp add: candidates_def availableModels_def backend_dead_def)

text \<open>
  A backend that refuses the API key: the six hardcoded candidates and the discovered
  one fail, and both generation methods throw without a backend call.
\<close>

theorem uninitialized_gateway_witness:
  "model (constructor backend_dead) = None
   \<and> probes (constructor backend_dead) = fastModels @ [''gemini-x'']
   \<and> fst (run_calls backend_dead [GenerateRaw ''hello'', GenerateStream ''hello'']
            (constructor backend_dead))
       = [Inl (Error ''No active Gemini model initialized''),
          Inl (Error ''No active Gemini model initialized'')]
   \<and> generate_calls (snd (run_calls backend_dead [GenerateRaw ''hello'', GenerateStream ''hello'']
            (constructor backend_dead))) = []
   \<and> stream_calls (snd (run_calls backend_dead [GenerateRaw ''hello'', GenerateStream ''hello'']
            (constructor backend_dead))) = []"
proof -
  have f: "\<not> probe_succeeds (probe_out backend_dead j (candidates backend_dead ! j))"
    if "j < length (candidates backend_dead)" for j
    by (simp add: probe_succeeds_def backend_dead_def)
  from uninitialized_gateway[of backend_dead "[GenerateRaw ''hello'', GenerateStream ''hello'']", OF f]
  show ?thesis by (simp add: candidates_dead not_initialized_def numeral_2_eq_2)
qed

text \<open>
  Claim C8 (probe bound of 8 seconds): the code does not do what the claim and the
  comment of line 93 say. The probe below answers \<open>OK\<close> after 9000 ms. The timer has
  called \<open>controller.abort()\<close> by then, but the signal reaches no request:
  \<open>tryModel\<close> returns \<open>true\<close>, the model is selected and no next candidate is tried.
\<close>

theorem late_probe_accepted:
  "fst (tryModel backend_slow ''gemini-1.5-flash-8b'' fresh) = True
   \<and> aborted (snd (tryModel backend_slow ''gemini-1.5-flash-8b'' fresh)) = [''gemini-1.5-flash-8b'']
   \<and> activeModelName (constructor backend_slow) = Some ''gemini-1.5-flash-8b''
   \<and> probes (constructor backend_slow) = [''gemini-1.5-flash-8b'']"
  by (simp add: constructor_def init_def fastModels_def tryModel_def backend_slow_def fresh_def)

section \<open>Properties of the response cache and of the generation methods\<close>

lemma map_set_absent: "k \<notin> fst ` set m \<Longrightarrow> map_set k v m = m @ [(k, v)]"
  by (induction m) auto

lemma map_delete_first:
  "k \<notin> fst ` set m \<Longrightarrow> map_delete k ((k, v) # m) = m"
  by (auto simp: map_delete_def filter_id_conv)

lemma setCache_new_key:
  assumes "key \<notin> fst ` set (cache s)" and "distinct (map fst (cache s))"
  shows "cache (setCache env key d s) =
           (if length (cache s) \<ge> 100
            then tl (cache s @ [(key, \<lparr>data = d, timestamp = now_out env (clock_reads s)\<rparr>)])
            else cache s @ [(key, \<lparr>data = d, timestamp = now_out env (clock_reads s)\<rparr>)])"
proof -
  let ?e = "\<lparr>data = d, timestamp = now_out env (clock_reads s)\<rparr>"
  have ms: "map_set key ?e (cache s) = cache s @ [(key, ?e)]"
    using map_set_absent[OF assms(1)] .
  show ?thesis
  proof (cases "cache s")
    case Nil
    then show ?thesis by (simp add: setCache_def Date_now_def)
  next
    case (Cons kv m)
    obtain k v where kv: "kv = (k, v)" by (cases kv)
    have "k \<notin> fst ` set (m @ [(key, ?e)])"
      using assms Cons kv by auto
    from map_delete_first[OF this, of v]
    have del: "map_delete k ((k, v) # m @ [(key, ?e)]) = m @ [(key, ?e)]" .
    have "cache (setCache env key d s) =
        (if length (cache s @ [(key, ?e)]) > 100
         then map_delete k (cache s @ [(key, ?e)]) else cache s @ [(key, ?e)])"
      unfolding setCache_def Date_now_def using ms Cons kv by (simp add: Let_def)
    then show ?thesis using del Cons kv by auto
  qed
qed

lemma setCache_fields [simp]:
  "clock_reads (setCache env key d s) = clock_reads s + 1"
  "model (setCache env key d s) = model s"
  "generate_calls (setCache env key d s) = generate_calls s"
  "stream_calls (setCache env key d s) = stream_calls s"
  by (simp_all add: setCache_def Date_now_def Let_def split: list.splits)

lemma entries_simps:
  "entries s = map (\<lambda>kv. (fst kv, data (snd kv))) (cache s)"
  "map fst (entries s) = map fst (cache s)"
  by (simp_all add: entries_def comp_def)

lemma insert_all_entries:
  assumes "distinct (map fst (cache s) @ map fst kds)" and "length (cache s) \<le> 100"
  shows "entries (insert_all env kds s) =
           drop (length (cache s) + length kds - 100) (entries s @ kds)
       \<and> distinct (map fst (cache (insert_all env kds s)))"
  using assms
proof (induction kds arbitrary: s)
  case Nil
  then show ?case by (simp add: entries_def)
next
  case (Cons kd kds)
  obtain key d where kd: "kd = (key, d)" by (cases kd)
  let ?e = "\<lparr>data = d, timestamp = now_out env (clock_reads s)\<rparr>"
  let ?s = "setCache env key d s"
  have new: "key \<notin> fst ` set (cache s)" and dist: "distinct (map fst (cache s))"
    using Cons.prems(1) kd by auto
  note c = setCache_new_key[OF new dist, of env d]
  have sub: "set (cache ?s) \<subseteq> set (cache s @ [(key, ?e)])"
    using c by (auto dest: list.set_sel(2)[rotated])
  have keys: "map fst (cache ?s) =
      (if length (cache s) \<ge> 100 then tl (map fst (cache s) @ [key]) else map fst (cache s) @ [key])"
    using c by (simp add: map_tl)
  have d1: "distinct (map fst (cache ?s) @ map fst kds)"
  proof -
    have "distinct ((map fst (cache s) @ [key]) @ map fst kds)"
      using Cons.prems(1) kd by auto
    moreover have "distinct (tl (map fst (cache s) @ [key]) @ map fst kds)"
      if "length (cache s) \<ge> 100"
    proof -
      obtain x xs where "map fst (cache s) @ [key] = x # xs"
        by (cases "map fst (cache s) @ [key]") auto
      then show ?thesis using calculation by (auto simp del: append_assoc)
    qed
    ultimately show ?thesis using keys by (simp del: append_assoc)
  qed
  have l1: "length (cache ?s) \<le> 100"
    using c Cons.prems(2) by (simp split: if_splits)
  have e1: "entries ?s = (if length (cache s) \<ge> 100 then tl (entries s @ [(key, d)]) else entries s @ [(key, d)])"
    using c by (simp add: entries_def map_tl)
  have len: "length (cache ?s) = (if length (cache s) \<ge> 100 then 100 else length (cache s) + 1)"
    using c Cons.prems(2) by simp
  from Cons.IH[OF d1 l1]
  have ih: "entries (insert_all env kds ?s) =
           drop (length (cache ?s) + length kds - 100) (entries ?s @ kds)"
    and dd: "distinct (map fst (cache (insert_all env kds ?s)))" by simp_all
  have "drop (length (cache ?s) + length kds - 100) (entries ?s @ kds)
      = drop (length (cache s) + length (kd # kds) - 100) (entries s @ kd # kds)"
  proof (cases "length (cache s) \<ge> 100")
    case True
    then have l: "length (cache s) = 100" using Cons.prems(2) by simp
    have "entries s \<noteq> []" using l by (auto simp: entries_def)
    then have "tl (entries s @ [(key, d)]) @ kds = tl (entries s @ kd # kds)"
      using kd by (cases "entries s") auto
    then have "drop (length kds) (tl (entries s @ [(key, d)]) @ kds)
        = drop (Suc (length kds)) (entries s @ kd # kds)"
      by (simp only: drop_Suc)
    moreover have "length (cache ?s) + length kds - 100 = length kds"
      "length (cache s) + length (kd # kds) - 100 = Suc (length kds)"
      using len l by simp_all
    moreover have "entries ?s = tl (entries s @ [(key, d)])" using e1 True by simp
    ultimately show ?thesis by (simp only:)
  next
    case False
    then show ?thesis using e1 len kd by simp
  qed
  then show ?case using ih dd kd by simp
qed


lemma getCached_cache [simp]: "cache (snd (getCached env key s)) = cache s"
  by (simp add: getCached_def Date_now_def split: option.splits)

lemma getCached_absent: "key \<notin> fst ` set (cache s) \<Longrightarrow> getCached env key s = (None, s)"
proof -
  assume "key \<notin> fst ` set (cache s)"
  then have "map_of (cache s) key = None" by (simp add: map_of_eq_None_iff)
  then show ?thesis by (simp add: getCached_def)
qed

lemma getCached_present:
  "map_of (cache s) key = Some e \<Longrightarrow>
   getCached env key s =
     (if now_out env (clock_reads s) - timestamp e < cacheExpiry then Some (data e) else None,
      s\<lparr>clock_reads := clock_reads s + 1\<rparr>)"
  by (simp add: getCached_def Date_now_def)

lemma entries_lookup:
  assumes "distinct (map fst (cache s))" and "kd \<in> set (entries s)"
  shows "\<exists>e. map_of (cache s) (fst kd) = Some e \<and> data e = snd kd"
proof -
  from assms(2) obtain kv where kv: "kv \<in> set (cache s)" "kd = (fst kv, data (snd kv))"
    by (auto simp: entries_def)
  then have "map_of (cache s) (fst kv) = Some (snd kv)"
    using map_of_is_SomeI[OF assms(1), of "fst kv" "snd kv"] by simp
  then show ?thesis using kv by simp
qed

lemma set_map_set: "set (map_set k v m) \<subseteq> insert (k, v) (set m)"
  by (induction m) (auto split: if_splits)

lemma set_cache_setCache:
  "set (cache (setCache env key d s))
     \<subseteq> insert (key, \<lparr>data = d, timestamp = now_out env (clock_reads s)\<rparr>) (set (cache s))"
proof -
  let ?c = "map_set key \<lparr>data = d, timestamp = now_out env (clock_reads s)\<rparr> (cache s)"
  have "set (cache (setCache env key d s)) \<subseteq> set ?c"
    by (cases ?c) (auto simp: setCache_def Date_now_def Let_def map_delete_def)
  then show ?thesis using set_map_set[of key _ "cache s"] by blast
qed

lemma insert_all_clock: "clock_reads (insert_all env kds s) = clock_reads s + length kds"
  by (induction kds arbitrary: s) auto

lemma insert_all_timestamps:
  "kv \<in> set (cache (insert_all env kds s)) \<Longrightarrow>
   kv \<in> set (cache s)
   \<or> (\<exists>i < length kds. timestamp (snd kv) = now_out env (clock_reads s + i))"
proof (induction kds arbitrary: s)
  case Nil
  then show ?case by simp
next
  case (Cons kd kds)
  obtain key d where kd: "kd = (key, d)" by (cases kd)
  let ?s = "setCache env key d s"
  from Cons.IH[of ?s] Cons.prems kd
  consider (old) "kv \<in> set (cache ?s)"
    | (new) i where "i < length kds" "timestamp (snd kv) = now_out env (clock_reads ?s + i)"
    by auto
  then show ?case
  proof cases
    case old
    then have "kv = (key, \<lparr>data = d, timestamp = now_out env (clock_reads s)\<rparr>) \<or> kv \<in> set (cache s)"
      using set_cache_setCache[of env key d s] by auto
    then show ?thesis
    proof
      assume "kv = (key, \<lparr>data = d, timestamp = now_out env (clock_reads s)\<rparr>)"
      then have "0 < length (kd # kds) \<and> timestamp (snd kv) = now_out env (clock_reads s + 0)"
        by simp
      then show ?thesis by blast
    qed simp
  next
    case new
    then have "Suc i < length (kd # kds) \<and> timestamp (snd kv) = now_out env (clock_reads s + Suc i)"
      by simp
    then show ?thesis by blast
  qed
qed

text \<open>
  Claim C7 (FIFO eviction). Starting from an empty cache, \<open>setCache\<close> is called once
  for each of a list of pairwise different keys. The cache then holds the last 100 keys
  inserted, with their texts, in insertion order: each insertion that takes the size
  above 100 evicts the oldest-inserted entry. Reading does not change the order
  (\<open>getCached\<close> leaves the \<open>Map\<close> as it is). After 101 insertions the first-inserted key
  is a miss and the other 100 keys are in the cache, each with its text and the time
  of its insertion: \<open>getCached\<close> returns the text when the entry has not expired.
\<close>

theorem fifo_eviction:
  assumes dist: "distinct (map fst kds)" and empty: "cache s = []"
  shows "entries (insert_all env kds s) = drop (length kds - 100) kds
       \<and> cache (snd (getCached env key (insert_all env kds s))) = cache (insert_all env kds s)
       \<and> (length kds = 101 \<longrightarrow>
            fst (getCached env (fst (hd kds)) (insert_all env kds s)) = None
          \<and> map fst (cache (insert_all env kds s)) = map fst (tl kds)
          \<and> (\<forall>kd \<in> set (tl kds). \<exists>e i.
                map_of (cache (insert_all env kds s)) (fst kd) = Some e \<and> data e = snd kd
              \<and> i < length kds \<and> timestamp e = now_out env (clock_reads s + i)
              \<and> fst (getCached env (fst kd) (insert_all env kds s))
                  = (if now_out env (clock_reads s + length kds) - timestamp e < cacheExpiry
                     then Some (snd kd) else None)))"
proof -
  let ?s = "insert_all env kds s"
  have a: "distinct (map fst (cache s) @ map fst kds)" "length (cache s) \<le> 100"
    using dist empty by simp_all
  from insert_all_entries[OF a, of env]
  have ent: "entries ?s = drop (length kds - 100) kds"
    and dd: "distinct (map fst (cache ?s))"
    using empty by (simp_all add: entries_def)
  have big: "fst (getCached env (fst (hd kds)) ?s) = None
          \<and> map fst (cache ?s) = map fst (tl kds)
          \<and> (\<forall>kd \<in> set (tl kds). \<exists>e i.
                map_of (cache ?s) (fst kd) = Some e \<and> data e = snd kd
              \<and> i < length kds \<and> timestamp e = now_out env (clock_reads s + i)
              \<and> fst (getCached env (fst kd) ?s)
                  = (if now_out env (clock_reads s + length kds) - timestamp e < cacheExpiry
                     then Some (snd kd) else None))"
    if len: "length kds = 101"
  proof -
    obtain kd0 rest where kds: "kds = kd0 # rest" using len by (cases kds) auto
    have e1: "entries ?s = tl kds" using ent len by (simp add: drop_Suc)
    have keys: "map fst (cache ?s) = map fst (tl kds)"
      using e1 entries_simps(2)[of ?s] by simp
    have "fst (hd kds) \<notin> fst ` set (cache ?s)"
    proof -
      have "fst kd0 \<notin> set (map fst rest)" using dist kds by simp
      moreover have "set (map fst (cache ?s)) = set (map fst rest)" using keys kds by simp
      ultimately show ?thesis using kds by simp
    qed
    then have miss: "fst (getCached env (fst (hd kds)) ?s) = None"
      by (simp add: getCached_absent)
    have rd: "\<exists>e i. map_of (cache ?s) (fst kd) = Some e \<and> data e = snd kd
              \<and> i < length kds \<and> timestamp e = now_out env (clock_reads s + i)
              \<and> fst (getCached env (fst kd) ?s)
                  = (if now_out env (clock_reads s + length kds) - timestamp e < cacheExpiry
                     then Some (snd kd) else None)"
      if "kd \<in> set (tl kds)" for kd
    proof -
      from entries_lookup[OF dd, of kd] that e1
      obtain e where e: "map_of (cache ?s) (fst kd) = Some e" "data e = snd kd" by auto
      from e(1) have "(fst kd, e) \<in> set (cache ?s)" by (rule map_of_SomeD)
      from insert_all_timestamps[OF this] empty
      obtain i where i: "i < length kds" "timestamp e = now_out env (clock_reads s + i)"
        by auto
      have "fst (getCached env (fst kd) ?s)
          = (if now_out env (clock_reads s + length kds) - timestamp e < cacheExpiry
             then Some (snd kd) else None)"
        using getCached_present[OF e(1), of env] e(2) by (simp add: insert_all_clock)
      then show ?thesis using e i by blast
    qed
    show ?thesis using miss keys rd by blast
  qed
  show ?thesis using ent big by simp
qed

lemma distinct_keys101: "distinct (map fst keys101)"
proof -
  have "inj_on (\<lambda>n. ''prompt '' @ replicate n CHR ''x'') (set [0..<101])"
  proof (rule inj_onI)
    fix n m :: nat
    assume "''prompt '' @ replicate n CHR ''x'' = ''prompt '' @ replicate m CHR ''x''"
    then have "length (replicate n CHR ''x'') = length (replicate m CHR ''x'')"
      by (simp only: same_append_eq)
    then show "n = m" by simp
  qed
  then show ?thesis by (simp add: keys101_def comp_def distinct_map)
qed

text \<open>
  With the 101 keys of \<open>keys101\<close>, inserted one per second: the first key is a miss,
  100 entries remain and the second key is read back.
\<close>

theorem fifo_eviction_witness:
  "fst (getCached backend_abc ''prompt '' (insert_all backend_abc keys101 fresh)) = None
   \<and> length (cache (insert_all backend_abc keys101 fresh)) = 100
   \<and> fst (getCached backend_abc ''prompt x'' (insert_all backend_abc keys101 fresh)) = Some ''text''"
proof -
  have empty: "cache fresh = []" by (simp add: fresh_def)
  have len: "length keys101 = 101" by (simp add: keys101_def)
  have hd: "hd keys101 = (''prompt '', ''text'')"
    by (simp add: keys101_def hd_map)
  have "tl keys101 = map (\<lambda>n. (''prompt '' @ replicate n CHR ''x'', ''text'')) [1..<101]"
    unfolding keys101_def by (simp only: map_tl[symmetric] tl_upt One_nat_def)
  then have "set (tl keys101) = (\<lambda>n. (''prompt '' @ replicate n CHR ''x'', ''text'')) ` {1..<101}"
    by simp
  moreover have "(1::nat) \<in> {1..<101}" by simp
  ultimately have "(''prompt '' @ replicate 1 CHR ''x'', ''text'') \<in> set (tl keys101)"
    by (metis (no_types, lifting) imageI)
  then have mem: "(''prompt x'', ''text'') \<in> set (tl keys101)" by simp
  let ?s = "insert_all backend_abc keys101 fresh"
  from fifo_eviction[OF distinct_keys101 empty, of backend_abc "''prompt ''"] len
  have miss: "fst (getCached backend_abc (fst (hd keys101)) ?s) = None"
    and keys: "map fst (cache ?s) = map fst (tl keys101)"
    and rd: "\<forall>kd \<in> set (tl keys101). \<exists>e i.
                map_of (cache ?s) (fst kd) = Some e \<and> data e = snd kd
              \<and> i < length keys101
              \<and> timestamp e = now_out backend_abc (clock_reads fresh + i)
              \<and> fst (getCached backend_abc (fst kd) ?s)
                  = (if now_out backend_abc (clock_reads fresh + length keys101) - timestamp e
                        < cacheExpiry
                     then Some (snd kd) else None)"
    by simp_all
  have "length (map fst (cache ?s)) = length (map fst (tl keys101))"
    using keys by (rule arg_cong)
  then have l: "length (cache ?s) = 100" using len by simp
  from bspec[OF rd mem] obtain e :: cache_entry and i where e: "i < length keys101"
    "timestamp e = now_out backend_abc (clock_reads fresh + i)"
    "fst (getCached backend_abc ''prompt x'' ?s)
       = (if now_out backend_abc (clock_reads fresh + length keys101) - timestamp e < cacheExpiry
          then Some ''text'' else None)"
    unfolding fst_conv snd_conv by blast
  have "now_out backend_abc (clock_reads fresh + length keys101) - timestamp e < cacheExpiry"
    using e(1,2) len by (simp add: backend_abc_def fresh_def cacheExpiry_def)
  then have "fst (getCached backend_abc ''prompt x'' ?s) = Some ''text''"
    using e(3) by simp
  then show ?thesis using miss hd l by simp
qed

text \<open>
  Claim C6 (cache hit and expiry): the code does not do what the claim says when the
  cached text is the empty string. The backend answers the prompt with an empty text;
  \<open>setCache\<close> stores it. One second later \<open>getCached\<close> finds the entry, which has not
  expired, and returns the empty string; \<open>if (cached)\<close> of line 172 takes it for a miss
  and a second backend request is made for the same prompt.
\<close>

theorem empty_text_not_served_from_cache:
  "fst (generateRaw backend_blank ''hello'' (constructor backend_blank)) = Inr []
   \<and> generate_calls (snd (generateRaw backend_blank ''hello'' (constructor backend_blank)))
       = [(''gemini-1.5-flash-8b'', ''hello'')]
   \<and> fst (getCached backend_blank (take 100 ''hello'')
            (snd (generateRaw backend_blank ''hello'' (constructor backend_blank)))) = Some []
   \<and> generate_calls (snd (generateRaw backend_blank ''hello''
            (snd (generateRaw backend_blank ''hello'' (constructor backend_blank)))))
       = [(''gemini-1.5-flash-8b'', ''hello''), (''gemini-1.5-flash-8b'', ''hello'')]"
  by (simp add: constructor_def init_def fastModels_def tryModel_def backend_blank_def fresh_def
      generateRaw_def ensureReady_def getCached_def setCache_def Date_now_def cacheExpiry_def Let_def)

text \<open>
  Claim C9, amended (streaming variant). \<open>generateStream\<close> does not consult the cache:
  on a service with a model, every call makes one \<open>generateContentStream\<close> request with
  the whole prompt and returns what the backend gives, whatever the cache holds for the
  100-character prefix. It reads no clock, makes no \<open>generateContent\<close> request and leaves
  the cache as it is: the streamed output is never stored.
\<close>

theorem generateStream_ignores_cache:
  assumes "model s = Some m"
  shows "fst (generateStream env prompt s) = stream_out env (length (stream_calls s)) m prompt
       \<and> stream_calls (snd (generateStream env prompt s)) = stream_calls s @ [(m, prompt)]
       \<and> cache (snd (generateStream env prompt s)) = cache s
       \<and> generate_calls (snd (generateStream env prompt s)) = generate_calls s
       \<and> clock_reads (snd (generateStream env prompt s)) = clock_reads s
       \<and> fst (generateStream env prompt (s\<lparr>cache := c\<rparr>)) = fst (generateStream env prompt s)"
  using assms
  by (simp add: generateStream_def ensureReady_def Let_def split: sum.splits)

text \<open>
  Claim C9 as stated fails: after \<open>generateRaw('hello')\<close> the cache holds a valid entry
  for the prompt, which serves a second \<open>generateRaw('hello')\<close> without a backend
  request, while \<open>generateStream('hello')\<close> makes a backend request all the same.
\<close>

theorem stream_with_cached_entry_counterexample:
  "fst (getCached backend_abc (take 100 ''hello'')
          (snd (generateRaw backend_abc ''hello'' (constructor backend_abc)))) = Some ''Hi there''
   \<and> generate_calls (snd (generateRaw backend_abc ''hello''
          (snd (generateRaw backend_abc ''hello'' (constructor backend_abc)))))
       = [(''gemini-2.0-flash-exp'', ''hello'')]
   \<and> stream_calls (snd (generateStream backend_abc ''hello''
          (snd (generateRaw backend_abc ''hello'' (constructor backend_abc)))))
       = [(''gemini-2.0-flash-exp'', ''hello'')]"
  by (simp add: constructor_def init_def fastModels_def tryModel_def backend_abc_def fresh_def
      generateRaw_def generateStream_def ensureReady_def getCached_def setCache_def Date_now_def
      cacheExpiry_def Let_def)

text \<open>
  The same service: the stream of the backend is returned, one stream request is made
  and the cache keeps its single entry.
\<close>

theorem generateStream_ignores_cache_witness:
  "fst (generateStream backend_abc ''hello''
          (snd (generateRaw backend_abc ''hello'' (constructor backend_abc))))
     = Inr [''Hi'', '' there'']
   \<and> stream_calls (snd (generateStream backend_abc ''hello''
          (snd (generateRaw backend_abc ''hello'' (constructor backend_abc)))))
       = [(''gemini-2.0-flash-exp'', ''hello'')]
   \<and> cache (snd (generateStream backend_abc ''hello''
          (snd (generateRaw backend_abc ''hello'' (constructor backend_abc)))))
       = [(''hello'', \<lparr>data = ''Hi there'', timestamp = 0\<rparr>)]"
proof -
  let ?s = "snd (generateRaw backend_abc ''hello'' (constructor backend_abc))"
  have s: "model ?s = Some ''gemini-2.0-flash-exp''" "stream_calls ?s = []"
    "cache ?s = [(''hello'', \<lparr>data = ''Hi there'', timestamp = 0\<rparr>)]"
    by (simp_all add: constructor_def init_def fastModels_def tryModel_def backend_abc_def fresh_def
      generateRaw_def ensureReady_def getCached_def setCache_def Date_now_def Let_def)
  have o: "stream_out backend_abc 0 ''gemini-2.0-flash-exp'' ''hello'' = Inr [''Hi'', '' there'']"
    by (simp add: backend_abc_def)
  from generateStream_ignores_cache[OF s(1), of backend_abc "''hello''" "[]"]
  show ?thesis by (simp add: s o)
qed


lemma map_of_map_set [simp]: "map_of (map_set k v m) k = Some v"
  by (induction m) auto

lemma length_map_set:
  "length (map_set k v m) = (if k \<in> fst ` set m then length m else Suc (length m))"
  by (induction m) force+

lemma setCache_lookup:
  assumes "length (cache s) \<le> 100" and "distinct (map fst (cache s))"
  shows "map_of (cache (setCache env key d s)) key
           = Some \<lparr>data = d, timestamp = now_out env (clock_reads s)\<rparr>"
proof (cases "key \<in> fst ` set (cache s)")
  case True
  then have "length (map_set key \<lparr>data = d, timestamp = now_out env (clock_reads s)\<rparr> (cache s)) \<le> 100"
    using assms(1) by (simp add: length_map_set)
  then show ?thesis
    by (simp add: setCache_def Date_now_def Let_def)
next
  case False
  let ?e = "\<lparr>data = d, timestamp = now_out env (clock_reads s)\<rparr>"
  note c = setCache_new_key[OF False assms(2), of env d]
  have "map_of (cache s) key = None" using False by (simp add: map_of_eq_None_iff)
  then have full: "map_of (cache s @ [(key, ?e)]) key = Some ?e"
    by (simp add: map_add_def)
  show ?thesis
  proof (cases "cache s")
    case Nil
    then show ?thesis using c by simp
  next
    case (Cons kv m)
    then have "fst kv \<noteq> key" using False by auto
    then have "map_of (tl (cache s @ [(key, ?e)])) key = Some ?e"
      using full Cons by (cases kv) (simp split: if_splits)
    then show ?thesis using c full by simp
  qed
qed

lemma generateRaw_hit:
  assumes "model s = Some m" and "map_of (cache s) (take 100 p) = Some e"
    and "now_out env (clock_reads s) - timestamp e < cacheExpiry" and "data e \<noteq> []"
  shows "generateRaw env p s = (Inr (data e), (ensureReady s)\<lparr>clock_reads := clock_reads s + 1\<rparr>)"
proof -
  have "map_of (cache (ensureReady s)) (take 100 p) = Some e" using assms(2) by simp
  from getCached_present[OF this, of env] assms show ?thesis
    by (simp add: generateRaw_def Let_def)
qed

lemma generateRaw_expired:
  assumes "model s = Some m" and "map_of (cache s) (take 100 p) = Some e"
    and "\<not> now_out env (clock_reads s) - timestamp e < cacheExpiry"
  shows "generate_calls (snd (generateRaw env p s)) = generate_calls s @ [(m, p)]"
proof -
  have "map_of (cache (ensureReady s)) (take 100 p) = Some e" using assms(2) by simp
  from getCached_present[OF this, of env] assms show ?thesis
    by (simp add: generateRaw_def Let_def split: sum.splits)
qed

lemma generateRaw_stores:
  assumes inv: "length (cache s) \<le> 100" "distinct (map fst (cache s))"
    and ok: "fst (generateRaw env p s) = Inr t"
  shows "\<exists>m. model (snd (generateRaw env p s)) = Some m"
    and "t \<noteq> [] \<Longrightarrow>
         \<exists>e. map_of (cache (snd (generateRaw env p s))) (take 100 p) = Some e \<and> data e = t"
proof -
  obtain m where m: "model s = Some m"
    using ok by (cases "model s") (simp_all add: generateRaw_def Let_def)
  obtain cached s1 where g: "getCached env (take 100 p) (ensureReady s) = (cached, s1)"
    by (cases "getCached env (take 100 p) (ensureReady s)")
  have c1: "cache s1 = cache s" using getCached_cache[of env "take 100 p" "ensureReady s"] g by simp
  have m1: "model s1 = Some m"
    using g m by (auto simp: getCached_def Date_now_def split: option.splits if_splits)
  let ?s2 = "s1\<lparr>generate_calls := generate_calls s1 @ [(m, p)]\<rparr>"
  have inv2: "length (cache ?s2) \<le> 100" "distinct (map fst (cache ?s2))"
    using inv c1 by simp_all
  show "\<exists>m. model (snd (generateRaw env p s)) = Some m"
    using m g m1 by (simp add: generateRaw_def Let_def split: sum.splits)
  show "\<exists>e. map_of (cache (snd (generateRaw env p s))) (take 100 p) = Some e \<and> data e = t"
    if t: "t \<noteq> []"
  proof (cases "cached \<noteq> None \<and> cached \<noteq> Some []")
    case True
    then have r: "generateRaw env p s = (Inr (the cached), s1)"
      using m g by (simp add: generateRaw_def Let_def)
    then have "cached = Some t" using ok True by auto
    then obtain e where "map_of (cache (ensureReady s)) (take 100 p) = Some e" "data e = t"
      using g by (auto simp: getCached_def Date_now_def split: option.splits if_splits)
    then show ?thesis using r c1 by simp
  next
    case False
    then have "\<not> (cached \<noteq> None \<and> cached \<noteq> Some [])" by simp
    then have r: "generateRaw env p s =
        (case generate_out env (length (generate_calls s1)) m p of
           Inl err \<Rightarrow> (Inl err, ?s2)
         | Inr text \<Rightarrow> (Inr text, setCache env (take 100 p) text ?s2))"
      unfolding generateRaw_def Let_def using m g
      by (simp only: option.case prod.case if_False ensureReady_fields(1))
    then have "snd (generateRaw env p s) = setCache env (take 100 p) t ?s2"
      using ok by (simp split: sum.splits)
    then show ?thesis using setCache_lookup[OF inv2, of env "take 100 p" t] by simp
  qed
qed


text \<open>
  A non-empty text is served from the cache. After a \<open>generateRaw\<close> call that returned
  the text \<open>t\<close>, the cache holds \<open>t\<close> under the first 100 characters of the prompt;
  a call that follows with a prompt of the same prefix returns \<open>t\<close> without a backend
  request while less than \<open>cacheExpiry\<close> (5 minutes) have passed since the entry was
  stored, and makes a backend request once they have passed.
\<close>

lemma second_call_served_from_cache:
  assumes inv: "length (cache s) \<le> 100" "distinct (map fst (cache s))"
    and ok: "fst (generateRaw env p s) = Inr t" and t: "t \<noteq> []"
    and same: "take 100 p' = take 100 p"
  shows "\<exists>e. map_of (cache (snd (generateRaw env p s))) (take 100 p) = Some e \<and> data e = t
       \<and> (now_out env (clock_reads (snd (generateRaw env p s))) - timestamp e < cacheExpiry \<longrightarrow>
            fst (generateRaw env p' (snd (generateRaw env p s))) = Inr t
          \<and> generate_calls (snd (generateRaw env p' (snd (generateRaw env p s))))
              = generate_calls (snd (generateRaw env p s)))
       \<and> (\<not> now_out env (clock_reads (snd (generateRaw env p s))) - timestamp e < cacheExpiry \<longrightarrow>
            length (generate_calls (snd (generateRaw env p' (snd (generateRaw env p s)))))
              = Suc (length (generate_calls (snd (generateRaw env p s)))))"
proof -
  let ?s1 = "snd (generateRaw env p s)"
  obtain m where m: "model ?s1 = Some m" using generateRaw_stores(1)[OF inv ok] by blast
  obtain e where e: "map_of (cache ?s1) (take 100 p') = Some e" "data e = t"
    using generateRaw_stores(2)[OF inv ok t] same by auto
  have hit: "fst (generateRaw env p' ?s1) = Inr t
       \<and> generate_calls (snd (generateRaw env p' ?s1)) = generate_calls ?s1"
    if "now_out env (clock_reads ?s1) - timestamp e < cacheExpiry"
    using generateRaw_hit[OF m e(1) that] e(2) t by simp
  have miss: "length (generate_calls (snd (generateRaw env p' ?s1))) = Suc (length (generate_calls ?s1))"
    if "\<not> now_out env (clock_reads ?s1) - timestamp e < cacheExpiry"
    using generateRaw_expired[OF m e(1) that] by simp
  show ?thesis using e hit miss same by auto
qed

section \<open>Properties of the job recommendations\<close>

lemma is_recommendation_object:
  "is_recommendation js r \<Longrightarrow>
   \<exists>kvs v n. r = JObj kvs \<and> map_of kvs ''jobId'' = Some v \<and> js_truthy js v
            \<and> map_of kvs ''matchScore'' = Some (JNum n)"
  by (cases r) (auto simp: is_recommendation_def split: option.splits sum.splits jsval.splits)

lemma picked_recommendations:
  "length (case v of JArr arr \<Rightarrow> take 5 (filter (is_recommendation js) arr) | _ \<Rightarrow> []) \<le> 5"
  "r \<in> set (case v of JArr arr \<Rightarrow> take 5 (filter (is_recommendation js) arr) | _ \<Rightarrow> []) \<Longrightarrow>
   \<exists>kvs w n. r = JObj kvs \<and> map_of kvs ''jobId'' = Some w
       \<and> map_of kvs ''matchScore'' = Some (JNum n)"
proof -
  show "length (case v of JArr arr \<Rightarrow> take 5 (filter (is_recommendation js) arr) | _ \<Rightarrow> []) \<le> 5"
    by (cases v) simp_all
  assume "r \<in> set (case v of JArr arr \<Rightarrow> take 5 (filter (is_recommendation js) arr) | _ \<Rightarrow> [])"
  then obtain arr where "r \<in> set (take 5 (filter (is_recommendation js) arr))"
    by (cases v) simp_all
  then have "r \<in> set (filter (is_recommendation js) arr)" by (rule in_set_takeD)
  then have "is_recommendation js r" by simp
  from is_recommendation_object[OF this]
  show "\<exists>kvs w n. r = JObj kvs \<and> map_of kvs ''jobId'' = Some w
       \<and> map_of kvs ''matchScore'' = Some (JNum n)" by blast
qed

lemma getJobRecommendations_prompt_throws:
  "recommendation_prompt js resumeData availableJobs = Inl err \<Longrightarrow>
   getJobRecommendations js env resumeData availableJobs s = (Inr [], s)"
  by (simp add: getJobRecommendations_def recommendations_try_def)

lemma getJobRecommendations_backend_throws:
  "recommendation_prompt js resumeData availableJobs = Inr prompt \<Longrightarrow>
   fst (generateRaw env prompt s) = Inl err \<Longrightarrow>
   getJobRecommendations js env resumeData availableJobs s = (Inr [], snd (generateRaw env prompt s))"
  by (cases "generateRaw env prompt s")
     (simp add: getJobRecommendations_def recommendations_try_def)

lemma getJobRecommendations_answer:
  "recommendation_prompt js resumeData availableJobs = Inr prompt \<Longrightarrow>
   fst (generateRaw env prompt s) = Inr answer \<Longrightarrow>
   getJobRecommendations js env resumeData availableJobs s =
     (Inr (case extractFirstJSONArray js answer of
             JArr arr \<Rightarrow> take 5 (filter (is_recommendation js) arr)
           | _ \<Rightarrow> []),
      snd (generateRaw env prompt s))"
  by (cases "generateRaw env prompt s"; cases "extractFirstJSONArray js answer")
     (simp_all add: getJobRecommendations_def recommendations_try_def)

text \<open>
  Claim C10 (job recommendations never throw). For all plain-data values of
  \<open>resumeData\<close> and \<open>availableJobs\<close>, every backend and every state of the service,
  \<open>getJobRecommendations\<close> returns an array and does not throw. The array has at most 5
  elements, each an object with a \<open>jobId\<close> field and a \<open>matchScore\<close> that is a number. It is
  empty when building the prompt throws (no backend request is made then), when
  \<open>generateRaw\<close> throws, and when \<open>extractFirstJSONArray\<close> gives no array; otherwise it
  holds the first 5 elements of the extracted array that pass the filter of line 281.
\<close>

theorem getJobRecommendations_never_throws:
  "\<exists>rs s'. getJobRecommendations js env resumeData availableJobs s = (Inr rs, s')
      \<and> length rs \<le> 5
      \<and> (\<forall>r \<in> set rs. \<exists>kvs v n. r = JObj kvs \<and> map_of kvs ''jobId'' = Some v
              \<and> map_of kvs ''matchScore'' = Some (JNum n))
      \<and> (\<forall>err. recommendation_prompt js resumeData availableJobs = Inl err \<longrightarrow>
            rs = [] \<and> s' = s)
      \<and> (\<forall>prompt. recommendation_prompt js resumeData availableJobs = Inr prompt \<longrightarrow>
            s' = snd (generateRaw env prompt s)
          \<and> (\<forall>err. fst (generateRaw env prompt s) = Inl err \<longrightarrow> rs = [])
          \<and> (\<forall>answer. fst (generateRaw env prompt s) = Inr answer \<longrightarrow>
                rs = (case extractFirstJSONArray js answer of
                        JArr arr \<Rightarrow> take 5 (filter (is_recommendation js) arr)
                      | _ \<Rightarrow> [])))"
proof (cases "recommendation_prompt js resumeData availableJobs")
  case (Inl err)
  from getJobRecommendations_prompt_throws[OF this, of env s] Inl
  show ?thesis by simp
next
  case (Inr prompt)
  show ?thesis
  proof (cases "fst (generateRaw env prompt s)")
    case (Inl err)
    from getJobRecommendations_backend_throws[OF Inr this] Inr Inl
    show ?thesis by simp
  next
    case answer: (Inr answer)
    let ?rs = "case extractFirstJSONArray js answer of
                 JArr arr \<Rightarrow> take 5 (filter (is_recommendation js) arr)
               | _ \<Rightarrow> []"
    have "getJobRecommendations js env resumeData availableJobs s
            = (Inr ?rs, snd (generateRaw env prompt s))"
      using getJobRecommendations_answer[OF Inr answer] .
    moreover have "length ?rs \<le> 5" by (rule picked_recommendations(1))
    moreover have "\<forall>r \<in> set ?rs. \<exists>kvs v n. r = JObj kvs \<and> map_of kvs ''jobId'' = Some v
              \<and> map_of kvs ''matchScore'' = Some (JNum n)"
      using picked_recommendations(2)[where v = "extractFirstJSONArray js answer" and js = js] by blast
    ultimately show ?thesis using Inr answer by simp
  qed
qed


lemma generateRaw_empty_cache:
  assumes "model s = Some m" and "cache s = []"
  shows "fst (generateRaw env p s) = generate_out env (length (generate_calls s)) m p"
proof -
  have "getCached env (take 100 p) (ensureReady s) = (None, ensureReady s)"
    using assms(2) by (simp add: getCached_absent)
  then show ?thesis using assms(1)
    by (simp add: generateRaw_def Let_def split: sum.splits)
qed

text \<open>
  The backend wraps an array of eight elements in prose: six pass the filter, five are
  returned. With \<open>null\<close> for \<open>resumeData\<close> the prompt cannot be built, and with a service
  that has no model \<open>generateRaw\<close> throws: the empty array both times.
\<close>

theorem getJobRecommendations_never_throws_witness:
  "fst (getJobRecommendations js_stub backend_matches resume_example jobs_example
          (constructor backend_matches))
     = Inr [JObj [(''jobId'', JStr ''j1''), (''matchScore'', JNum 1)],
            JObj [(''jobId'', JStr ''j2''), (''matchScore'', JNum 2)],
            JObj [(''jobId'', JStr ''j3''), (''matchScore'', JNum 3)],
            JObj [(''jobId'', JStr ''j4''), (''matchScore'', JNum 4)],
            JObj [(''jobId'', JStr ''j5''), (''matchScore'', JNum 5)]]
   \<and> getJobRecommendations js_stub backend_matches JNull jobs_example (constructor backend_matches)
     = (Inr [], constructor backend_matches)
   \<and> fst (getJobRecommendations js_stub backend_dead resume_example jobs_example
          (constructor backend_dead))
     = Inr []"
proof -
  obtain p where p: "recommendation_prompt js_stub resume_example jobs_example = Inr p"
    by (simp add: recommendation_prompt_def format_job_def seq_def js_or_def js_map_def
        js_join_method_def resume_example_def jobs_example_def js_stub_def
        string_of_nat.simps [of 1] string_of_nat.simps [of 2] string_of_nat.simps [of 3])
  have thrown: "recommendation_prompt js_stub JNull jobs_example
      = Inl (Error ''Cannot read properties of null (reading skills)'')"
    by (simp add: recommendation_prompt_def format_job_def seq_def js_or_def js_map_def
        js_join_method_def jobs_example_def js_stub_def
        string_of_nat.simps [of 1] string_of_nat.simps [of 2])
  have ready: "model (constructor backend_matches) = Some ''gemini-1.5-flash-8b''"
    "cache (constructor backend_matches) = []"
    by (simp_all add: constructor_def init_def fastModels_def tryModel_def backend_matches_def
        fresh_def)
  have answer: "fst (generateRaw backend_matches p (constructor backend_matches))
      = Inr (''Here are the matches: '' @ reply_json @ '' Good luck!'')"
    unfolding generateRaw_empty_cache[OF ready] by (simp add: backend_matches_def)
  have dead: "fst (generateRaw backend_dead p (constructor backend_dead)) = Inl not_initialized"
    by (simp add: constructor_def init_def fastModels_def tryModel_def backend_dead_def
        availableModels_def fresh_def generateRaw_def ensureReady_def not_initialized_def)
  have found: "match_brackets (''Here are the matches: '' @ reply_json @ '' Good luck!'')
      = Some reply_json"
    by (simp add: match_brackets_def reply_json_def)
  have picked: "(case extractFirstJSONArray js_stub (''Here are the matches: '' @ reply_json @ '' Good luck!'') of
           JArr arr \<Rightarrow> take 5 (filter (is_recommendation js_stub) arr)
         | _ \<Rightarrow> [])
     = [JObj [(''jobId'', JStr ''j1''), (''matchScore'', JNum 1)],
        JObj [(''jobId'', JStr ''j2''), (''matchScore'', JNum 2)],
        JObj [(''jobId'', JStr ''j3''), (''matchScore'', JNum 3)],
        JObj [(''jobId'', JStr ''j4''), (''matchScore'', JNum 4)],
        JObj [(''jobId'', JStr ''j5''), (''matchScore'', JNum 5)]]"
    unfolding extractFirstJSONArray_def found
    by (simp add: js_stub_def is_recommendation_def)
  from getJobRecommendations_never_throws
         [of js_stub backend_matches resume_example jobs_example "constructor backend_matches"]
    p answer picked
  have a: "fst (getJobRecommendations js_stub backend_matches resume_example jobs_example
          (constructor backend_matches))
     = Inr [JObj [(''jobId'', JStr ''j1''), (''matchScore'', JNum 1)],
            JObj [(''jobId'', JStr ''j2''), (''matchScore'', JNum 2)],
            JObj [(''jobId'', JStr ''j3''), (''matchScore'', JNum 3)],
            JObj [(''jobId'', JStr ''j4''), (''matchScore'', JNum 4)],
            JObj [(''jobId'', JStr ''j5''), (''matchScore'', JNum 5)]]"
    by auto
  from getJobRecommendations_never_throws
         [of js_stub backend_matches JNull jobs_example "constructor backend_matches"] thrown
  have b: "getJobRecommendations js_stub backend_matches JNull jobs_example (constructor backend_matches)
     = (Inr [], constructor backend_matches)"
    by auto
  from getJobRecommendations_never_throws
         [of js_stub backend_dead resume_example jobs_example "constructor backend_dead"] p dead
  have c: "fst (getJobRecommendations js_stub backend_dead resume_example jobs_example
          (constructor backend_dead)) = Inr []"
    by auto
  show ?thesis using a b c by (simp only: simp_thms)
qed

end
